theory Spec2Isabelle
  imports Complex_Main
begin

section \<open>JavaScript values used by the pipeline\<close>

text \<open>
  A JavaScript string is a sequence of UTF-16 code units. The model writes a string as a
  \<^typ>\<open>string\<close>, one \<^typ>\<open>char\<close> per code unit, so it covers the strings whose code units
  lie in 0..255; \<open>str.length\<close> is \<^const>\<open>length\<close> and \<open>str.charCodeAt(i)\<close> is
  \<^const>\<open>of_char\<close> of the i-th element.

  Numbers that hold integers are \<^typ>\<open>int\<close>. The bitwise operators first convert their
  operands with ToInt32, which is written out here.
\<close>

definition toInt32 :: "int \<Rightarrow> int" where
  "toInt32 x = (x + 2 ^ 31) mod 2 ^ 32 - 2 ^ 31"

definition js_shl :: "int \<Rightarrow> nat \<Rightarrow> int" where
  \<comment> \<open>\<open>x << n\<close>\<close>
  "js_shl x n = toInt32 (toInt32 x * 2 ^ (n mod 32))"

definition js_and :: "int \<Rightarrow> int \<Rightarrow> int" where
  \<comment> \<open>\<open>x & y\<close>\<close>
  "js_and x y = and (toInt32 x) (toInt32 y)"

definition js_rem :: "int \<Rightarrow> int \<Rightarrow> int" where
  \<comment> \<open>\<open>a % b\<close> for \<open>b \<noteq> 0\<close>: the result takes the sign of the dividend\<close>
  "js_rem a b = sgn a * (\<bar>a\<bar> mod \<bar>b\<bar>)"

section \<open>readingGenerator.js: seeding\<close>

definition hashStep :: "int \<Rightarrow> int \<Rightarrow> int" where
  \<comment> \<open>the body of the loop in \<open>hashCode\<close>\<close>
  "hashStep hash char =
     (let hash1 = (js_shl hash 5 - hash) + char
      in js_and hash1 hash1)"

definition hashCode :: "string \<Rightarrow> int" where
  "hashCode str = \<bar>foldl hashStep 0 (map of_char str)\<bar>"

text \<open>
  The hash as the specification words it: \<open>hash = hash*31 + charCode\<close>, wrapped to a
  32-bit signed integer at every step.
\<close>

definition polyStep :: "int \<Rightarrow> int \<Rightarrow> int" where
  "polyStep hash char = toInt32 (hash * 31 + char)"

definition polyHash :: "string \<Rightarrow> int" where
  "polyHash str = foldl polyStep 0 (map of_char str)"

section \<open>keywordExtractor.js\<close>

subsection \<open>Characters and the string methods used\<close>

definition charCode :: "char \<Rightarrow> nat" where
  "charCode c = of_char c"

definition isLowerAZ :: "char \<Rightarrow> bool" where
  \<comment> \<open>the class \<open>a-z\<close>\<close>
  "isLowerAZ c = (97 \<le> charCode c \<and> charCode c \<le> 122)"

definition isUpperAZ :: "char \<Rightarrow> bool" where
  \<comment> \<open>the class \<open>A-Z\<close>\<close>
  "isUpperAZ c = (65 \<le> charCode c \<and> charCode c \<le> 90)"

definition isDigit :: "char \<Rightarrow> bool" where
  \<comment> \<open>the class \<open>0-9\<close>\<close>
  "isDigit c = (48 \<le> charCode c \<and> charCode c \<le> 57)"

definition isSpace :: "char \<Rightarrow> bool" where
  \<comment> \<open>the class \<open>\s\<close> below U+0100: tab, LF, VT, FF, CR, space, no-break space\<close>
  "isSpace c = ((9 \<le> charCode c \<and> charCode c \<le> 13) \<or> charCode c = 32 \<or> charCode c = 160)"

definition toLowerChar :: "char \<Rightarrow> char" where
  \<comment> \<open>below U+0100 the upper-case letters are A-Z and U+00C0..U+00DE without U+00D7;
      each has its lower-case form 32 code points later\<close>
  "toLowerChar c =
     (if isUpperAZ c \<or> (192 \<le> charCode c \<and> charCode c \<le> 222 \<and> charCode c \<noteq> 215)
      then char_of (charCode c + 32) else c)"

definition toLowerCase :: "string \<Rightarrow> string" where
  "toLowerCase str = map toLowerChar str"

function splitWs :: "string \<Rightarrow> string list" where
  \<comment> \<open>\<open>str.split(/\s+/)\<close>: every maximal run of white space separates two pieces, so a
      string that starts or ends with white space yields an empty first or last piece\<close>
  "splitWs [] = [[]]"
| "splitWs (c # cs) =
     (if isSpace c then [] # splitWs (dropWhile isSpace cs)
      else (case splitWs cs of [] \<Rightarrow> [[c]] | w # ws \<Rightarrow> (c # w) # ws))"
  by pat_completeness auto
termination
  by (relation "measure length") (auto simp: length_dropWhile_le less_Suc_eq_le)

definition slice0 :: "'a list \<Rightarrow> int \<Rightarrow> 'a list" where
  \<comment> \<open>\<open>xs.slice(0, end)\<close> for an integer \<open>end\<close>: a negative \<open>end\<close> counts from the end\<close>
  "slice0 xs end = (if 0 \<le> end then take (nat end) xs else take (length xs - nat (- end)) xs)"

subsection \<open>Objects used as dictionaries\<close>

text \<open>
  \<open>frequency\<close> is a plain object. Its own properties are kept here in creation order;
  assigning to an existing property keeps its place. Enumeration (\<open>Object.entries\<close>) lists
  first the keys that are array indices (canonical decimal numerals below \<open>2^32 - 1\<close>) in
  ascending numeric order, then the other keys in creation order.

  A key that is not an own property is looked up in \<open>Object.prototype\<close>. The keys stored
  are tokens made of \<open>a-z\<close> and \<open>0-9\<close>, and the only property name of
  \<open>Object.prototype\<close> of that form is \<open>constructor\<close>, whose value is a function: then
  \<open>(frequency[word] || 0) + 1\<close> is a string, not a number, and stays one on every later
  increment. \<open>Junk\<close> stands for such a value.
\<close>

datatype tally = Count nat | Junk

fun assign :: "string \<Rightarrow> 'v \<Rightarrow> (string \<times> 'v) list \<Rightarrow> (string \<times> 'v) list" where
  \<comment> \<open>\<open>obj[key] = v\<close>\<close>
  "assign key v [] = [(key, v)]"
| "assign key v ((k, w) # rest) = (if k = key then (k, v) # rest else (k, w) # assign key v rest)"

definition decimalValue :: "string \<Rightarrow> int" where
  "decimalValue str = foldl (\<lambda>n c. 10 * n + (int (charCode c) - 48)) 0 str"

definition arrayIndex :: "string \<Rightarrow> int option" where
  "arrayIndex key =
     (if key \<noteq> [] \<and> list_all isDigit key \<and> (key = ''0'' \<or> hd key \<noteq> CHR ''0'')
         \<and> decimalValue key < 2 ^ 32 - 1
      then Some (decimalValue key) else None)"

definition entries :: "(string \<times> 'v) list \<Rightarrow> (string \<times> 'v) list" where
  \<comment> \<open>\<open>Object.entries(obj)\<close>\<close>
  "entries obj =
     sort_key (\<lambda>(k, v). the (arrayIndex k)) (filter (\<lambda>(k, v). arrayIndex k \<noteq> None) obj)
     @ filter (\<lambda>(k, v). arrayIndex k = None) obj"

subsection \<open>extractKeywords\<close>

definition STOP_WORDS :: "string list" where
  "STOP_WORDS =
    [''the'', ''a'', ''an'', ''and'', ''or'', ''but'', ''in'', ''on'', ''at'', ''to'', ''for'', ''of'',
     ''with'', ''by'', ''from'', ''as'', ''is'', ''was'', ''are'', ''were'', ''been'', ''be'', ''have'',
     ''has'', ''had'', ''do'', ''does'', ''did'', ''will'', ''would'', ''could'', ''should'', ''may'',
     ''might'', ''must'', ''shall'', ''can'', ''need'', ''dare'', ''ought'', ''used'', ''this'',
     ''that'', ''these'', ''those'', ''it'', ''its'', ''they'', ''them'', ''their'', ''we'', ''us'',
     ''our'', ''you'', ''your'', ''i'', ''me'', ''my'', ''he'', ''him'', ''his'', ''she'', ''her'',
     ''which'', ''who'', ''whom'', ''what'', ''where'', ''when'', ''why'', ''how'', ''all'', ''each'',
     ''every'', ''both'', ''few'', ''more'', ''most'', ''other'', ''some'', ''such'', ''no'', ''not'',
     ''only'', ''same'', ''so'', ''than'', ''too'', ''very'', ''just'', ''also'', ''now'', ''here'',
     ''there'', ''then'', ''once'', ''page'', ''document'', ''file'', ''version'', ''date'', ''new'',
     ''one'', ''two'', ''three'', ''first'', ''last'', ''next'', ''any'', ''many'', ''much'', ''own'']"

definition tokenize :: "string \<Rightarrow> string list" where
  \<comment> \<open>the value of \<open>words\<close>\<close>
  "tokenize text =
     filter (\<lambda>word. length word > 3 \<and> word \<notin> set STOP_WORDS)
       (splitWs (map (\<lambda>c. if isLowerAZ c \<or> isDigit c \<or> isSpace c then c else CHR '' '')
                     (toLowerCase text)))"

definition countWord :: "(string \<times> tally) list \<Rightarrow> string \<Rightarrow> (string \<times> tally) list" where
  \<comment> \<open>\<open>frequency[word] = (frequency[word] || 0) + 1\<close>\<close>
  "countWord frequency word =
     assign word
       (case map_of frequency word of
          Some (Count n) \<Rightarrow> Count (n + 1)
        | Some Junk \<Rightarrow> Junk
        | None \<Rightarrow> if word = ''constructor'' then Junk else Count 1)
       frequency"

definition compareEntries :: "string \<times> tally \<Rightarrow> string \<times> tally \<Rightarrow> int" where
  \<comment> \<open>\<open>(a, b) => b[1] - a[1]\<close>; a result that is not a number counts as 0 in the sort\<close>
  "compareEntries a b =
     (case (snd a, snd b) of (Count x, Count y) \<Rightarrow> int y - int x | _ \<Rightarrow> 0)"

definition sortEntries :: "(string \<times> tally) list \<Rightarrow> (string \<times> tally) list option" where
  \<comment> \<open>\<open>es.sort((a, b) => b[1] - a[1])\<close>, a stable sort. With a \<open>Junk\<close> entry, which
      compares equal to every entry, the comparison is consistent only if all entries
      compare equal, and then the order stays; otherwise the order is left to the engine
      (\<open>None\<close>)\<close>
  "sortEntries es =
     (if list_all (\<lambda>e. snd e \<noteq> Junk) es
      then Some (sort_key (\<lambda>e. case snd e of Count n \<Rightarrow> - int n | Junk \<Rightarrow> 0) es)
      else if list_all (\<lambda>a. list_all (\<lambda>b. compareEntries a b = 0) es) es
      then Some es
      else None)"

definition extractKeywords :: "string \<Rightarrow> int \<Rightarrow> string list option" where
  "extractKeywords text maxKeywords =
     (let words = tokenize text;
          frequency = foldl countWord [] words
      in map_option (\<lambda>sorted. map fst (slice0 sorted maxKeywords))
           (sortEntries (entries frequency)))"

subsection \<open>categorizeDocument\<close>

definition categories :: "(string \<times> string list) list" where
  \<comment> \<open>the table of \<open>{ name, words }\<close> entries\<close>
  "categories =
    [(''technical'', [''code'', ''software'', ''system'', ''data'', ''api'', ''function'', ''error'', ''debug'']),
     (''business'', [''revenue'', ''sales'', ''market'', ''customer'', ''strategy'', ''growth'', ''budget'']),
     (''legal'', [''agreement'', ''contract'', ''terms'', ''party'', ''clause'', ''liability'', ''law'']),
     (''academic'', [''research'', ''study'', ''analysis'', ''hypothesis'', ''methodology'', ''results'']),
     (''creative'', [''design'', ''concept'', ''creative'', ''brand'', ''visual'', ''story'', ''content'']),
     (''administrative'', [''meeting'', ''agenda'', ''minutes'', ''action'', ''review'', ''report'', ''status''])]"

definition categoryScore :: "string list \<Rightarrow> string list \<Rightarrow> nat" where
  \<comment> \<open>\<open>category.words.filter(w => keywordSet.has(w)).length\<close>, with
      \<open>keywordSet = new Set(keywords.map(k => k.toLowerCase()))\<close>\<close>
  "categoryScore keywords ws = length (filter (\<lambda>w. w \<in> set (map toLowerCase keywords)) ws)"

definition matchStep :: "string list \<Rightarrow> string \<times> nat \<Rightarrow> string \<times> string list \<Rightarrow> string \<times> nat" where
  \<comment> \<open>the body of the loop over \<open>categories\<close>; \<open>bestMatch\<close> is the pair (name, score)\<close>
  "matchStep keywords bestMatch category =
     (let score = categoryScore keywords (snd category)
      in if score > snd bestMatch then (fst category, score) else bestMatch)"

definition categorizeDocument :: "string list \<Rightarrow> string" where
  "categorizeDocument keywords = fst (foldl (matchStep keywords) (''general'', 0) categories)"

section \<open>readingGenerator.js: decks and selection\<close>

record named =
  name :: string

record deck_card = named +
  meaning :: string

record aura_entry = named +
  description :: string

record card = deck_card +
  position :: string

record reading =
  title :: string
  keywords' :: "string list"  \<comment> \<open>the property \<open>keywords\<close>\<close>
  category :: string
  aura :: string
  certification :: string
  cards :: "card list"

definition CARD_DECKS_past :: "deck_card list" where
  \<open>CARD_DECKS_past =
    [\<lparr>name = ''The Procrastinator'',
      meaning = ''This document began its journey in the depths of someone's 'to-do later' pile. It has known neglect, yet persevered.''\<rparr>,
     \<lparr>name = ''The Midnight Oil'',
      meaning = ''Born from late-night inspiration and questionable coffee decisions. This document carries the energy of deadlines past.''\<rparr>,
     \<lparr>name = ''The Copy-Paste Sage'',
      meaning = ''Much wisdom here was borrowed from documents that came before. Standing on the shoulders of templates.''\<rparr>,
     \<lparr>name = ''The Revision Maze'',
      meaning = ''This document has seen many versions, each one slightly different, none quite right. Version 17 remembers.''\<rparr>,
     \<lparr>name = ''The Abandoned Draft'',
      meaning = ''Once begun with great enthusiasm, then forgotten for weeks. Its early paragraphs still echo with optimism.''\<rparr>,
     \<lparr>name = ''The Meeting Minutes'',
      meaning = ''This document was birthed in a conference room. It carries the collective indecision of many voices.''\<rparr>,
     \<lparr>name = ''The Inherited Legacy'',
      meaning = ''Someone else started this. The original author has moved on, leaving only cryptic comments behind.''\<rparr>,
     \<lparr>name = ''The Scope Creeper'',
      meaning = ''What began as a simple task grew into something far more complex. Feature creep left its mark.''\<rparr>]\<close>

definition CARD_DECKS_present :: "deck_card list" where
  \<open>CARD_DECKS_present =
    [\<lparr>name = ''The Attention Seeker'',
      meaning = ''Right now, this document desperately wants to be read. It yearns for someone to actually make it to page 2.''\<rparr>,
     \<lparr>name = ''The Hopeful Attachment'',
      meaning = ''Currently sitting in an inbox, waiting to be opened. It believes today could be the day.''\<rparr>,
     \<lparr>name = ''The Polished Facade'',
      meaning = ''Presenting its best self with clean formatting and professional fonts. But we know the tracked changes it hides.''\<rparr>,
     \<lparr>name = ''The Meeting Survivor'',
      meaning = ''This document has been projected onto screens and scrutinized by many. It seeks validation.''\<rparr>,
     \<lparr>name = ''The Urgent Flag'',
      meaning = ''Marked as important! High priority! But is anyone actually reading it? The document wonders.''\<rparr>,
     \<lparr>name = ''The Circling Approval'',
      meaning = ''Currently making rounds through the approval chain. Each signature brings it closer to its destiny.''\<rparr>,
     \<lparr>name = ''The Open Tab'',
      meaning = ''Living in a browser tab among dozens of others. Occasionally glimpsed but never fully absorbed.''\<rparr>,
     \<lparr>name = ''The Desktop Dweller'',
      meaning = ''Saved to the desktop for "quick access." Now buried under 47 other files with similar intentions.''\<rparr>]\<close>

definition CARD_DECKS_future :: "deck_card list" where
  \<open>CARD_DECKS_future =
    [\<lparr>name = ''The Forgotten Archive'',
      meaning = ''Beware! This document's destiny leads to a folder called 'Old Stuff' where it will languish for eternity.''\<rparr>,
     \<lparr>name = ''The Scope Creep'',
      meaning = ''Warning: Additional requirements approach. This document will grow to twice its intended size.''\<rparr>,
     \<lparr>name = ''The Reply All Catastrophe'',
      meaning = ''Danger ahead! This document may be accidentally sent to people who should never see it.''\<rparr>,
     \<lparr>name = ''The Printer Nemesis'',
      meaning = ''A formatting disaster awaits. Margins will shift, fonts will change, and someone will say "it looked fine on my screen."''\<rparr>,
     \<lparr>name = ''The Endless Revision'',
      meaning = ''More feedback is coming. Version numbers will climb. The "final" version will spawn many children.''\<rparr>,
     \<lparr>name = ''The Deadline Demon'',
      meaning = ''A hard deadline approaches. Corners will be cut. Sleep will be lost. The document will ship anyway.''\<rparr>,
     \<lparr>name = ''The Silent Archive'',
      meaning = ''After much fanfare, this document will be filed away and never opened again. Such is the cycle.''\<rparr>,
     \<lparr>name = ''The Rebirth'',
      meaning = ''This document will be repurposed. Its content will live on in presentations, emails, and other forms.''\<rparr>]\<close>

definition AURAS :: "aura_entry list" where
  "AURAS =
    [\<lparr>name = ''Focus Goblin'', description = ''Highly concentrated content, dense with purpose''\<rparr>,
     \<lparr>name = ''Deadline Phantom'', description = ''Created under pressure, radiates urgency''\<rparr>,
     \<lparr>name = ''Meeting Magnet'', description = ''Will spawn many discussions and calendar invites''\<rparr>,
     \<lparr>name = ''Inbox Specter'', description = ''Destined to haunt email threads''\<rparr>,
     \<lparr>name = ''Revision Wraith'', description = ''Will undergo many transformations''\<rparr>,
     \<lparr>name = ''Approval Seeker'', description = ''Craves validation from stakeholders''\<rparr>,
     \<lparr>name = ''Scope Creeper'', description = ''Tends to expand beyond original boundaries''\<rparr>,
     \<lparr>name = ''Format Warrior'', description = ''Fights valiantly against inconsistent styling''\<rparr>,
     \<lparr>name = ''Archive Wanderer'', description = ''Seeks a final resting place in the file system''\<rparr>,
     \<lparr>name = ''Tab Haunter'', description = ''Will live in browser tabs indefinitely''\<rparr>]"

definition CERTIFICATIONS :: "string list" where
  "CERTIFICATIONS =
    [''Certified Chaotic Neutral'',
     ''Professionally Procrastinated'',
     ''Officially Overthought'',
     ''Beautifully Bureaucratic'',
     ''Delightfully Disorganized'',
     ''Strategically Ambiguous'',
     ''Carefully Cluttered'',
     ''Magnificently Meandering'',
     ''Perfectly Pending'',
     ''Blissfully Bloated'']"

definition seededIndex :: "'a list \<Rightarrow> int \<Rightarrow> int \<Rightarrow> int" where
  \<comment> \<open>\<open>index = (seed + offset) % array.length\<close>, for a non-empty array\<close>
  "seededIndex array seed offset = js_rem (seed + offset) (int (length array))"

definition selectSeeded :: "'a list \<Rightarrow> int \<Rightarrow> int \<Rightarrow> 'a option" where
  \<comment> \<open>\<open>array[index]\<close> is \<open>undefined\<close> (\<open>None\<close>) outside the array, and for an
      empty array, where \<open>index\<close> is not a number\<close>
  "selectSeeded array seed offset =
     (let index = seededIndex array seed offset
      in if array \<noteq> [] \<and> 0 \<le> index \<and> index < int (length array)
         then Some (array ! nat index) else None)"

definition readingSeed :: "string \<Rightarrow> string \<Rightarrow> int" where
  \<comment> \<open>\<open>seed = hashCode(text.slice(0, 500) + title)\<close>\<close>
  "readingSeed txt ttl = hashCode (take 500 txt @ ttl)"

definition drawn :: "string \<Rightarrow> deck_card \<Rightarrow> card" where
  \<comment> \<open>\<open>{ position, name: c.name, meaning: c.meaning }\<close>\<close>
  "drawn pos c = \<lparr>name = name c, meaning = meaning c, position = pos\<rparr>"

definition generateReading :: "string \<Rightarrow> string list \<Rightarrow> string \<Rightarrow> string \<Rightarrow> reading option" where
  \<comment> \<open>the arguments are \<open>title\<close>, \<open>keywords\<close>, \<open>category\<close>, \<open>text\<close>; reading a property of
      an \<open>undefined\<close> selection throws a TypeError, which is \<open>None\<close>\<close>
  "generateReading ttl kws cat txt =
     (let seed = readingSeed txt ttl in
      case selectSeeded CARD_DECKS_past seed 0 of None \<Rightarrow> None | Some pastCard \<Rightarrow>
      case selectSeeded CARD_DECKS_present seed 1 of None \<Rightarrow> None | Some presentCard \<Rightarrow>
      case selectSeeded CARD_DECKS_future seed 2 of None \<Rightarrow> None | Some futureCard \<Rightarrow>
      case selectSeeded AURAS seed 3 of None \<Rightarrow> None | Some aura' \<Rightarrow>
      case selectSeeded CERTIFICATIONS seed 4 of None \<Rightarrow> None | Some certification' \<Rightarrow>
      Some \<lparr>title = ttl, keywords' = kws, category = cat,
            aura = name aura', certification = certification',
            cards = [drawn ''past'' pastCard, drawn ''present'' presentCard,
                     drawn ''future'' futureCard]\<rparr>)"

section \<open>textExtractor.js\<close>

text \<open>
  \<open>pdfParse\<close> belongs to the library pdf-parse. It is a parameter of the model: it maps
  the uploaded buffer to the parsed data, or throws (\<open>None\<close>).
\<close>

record pdf_data =
  dataText :: string  \<comment> \<open>\<open>data.text\<close>\<close>
  infoTitle :: "string option"  \<comment> \<open>\<open>data.info?.Title\<close>\<close>
  numpages :: nat

record extracted =
  extractedText :: string  \<comment> \<open>the property \<open>text\<close>\<close>
  numPages :: nat
  extractedTitle :: string  \<comment> \<open>the property \<open>title\<close>\<close>

definition trim :: "string \<Rightarrow> string" where
  "trim str = rev (dropWhile isSpace (rev (dropWhile isSpace str)))"

fun splitOn :: "char \<Rightarrow> string \<Rightarrow> string list" where
  \<comment> \<open>\<open>str.split(sep)\<close> for a separator of one character\<close>
  "splitOn sep [] = [[]]"
| "splitOn sep (c # cs) =
     (if c = sep then [] # splitOn sep cs
      else (case splitOn sep cs of [] \<Rightarrow> [[c]] | w # ws \<Rightarrow> (c # w) # ws))"

definition isWordChar :: "char \<Rightarrow> bool" where
  \<comment> \<open>the class \<open>\w\<close>\<close>
  "isWordChar c = (isLowerAZ c \<or> isUpperAZ c \<or> isDigit c \<or> c = CHR ''_'')"

definition titlePunctuation :: string where
  \<open>titlePunctuation = ''-_.,!?'"()''\<close>

function collapseWs :: "string \<Rightarrow> string" where
  \<comment> \<open>\<open>str.replace(/\s+/g, ' ')\<close>\<close>
  "collapseWs [] = []"
| "collapseWs (c # cs) =
     (if isSpace c then CHR '' '' # collapseWs (dropWhile isSpace cs) else c # collapseWs cs)"
  by pat_completeness auto
termination
  by (relation "measure length") (auto simp: length_dropWhile_le less_Suc_eq_le)

definition orElse :: "string \<Rightarrow> string \<Rightarrow> string" where
  \<comment> \<open>\<open>a || b\<close> on strings: the empty string is falsy\<close>
  "orElse a b = (if a = [] then b else a)"

definition cleanTitle :: "string \<Rightarrow> string" where
  "cleanTitle ttl =
     orElse
       (take 80 (trim (collapseWs
          (filter (\<lambda>c. isWordChar c \<or> isSpace c \<or> c \<in> set titlePunctuation) ttl))))
       ''Untitled Document''"

definition MAX_TEXT_LENGTH :: nat where
  "MAX_TEXT_LENGTH = 3000"

definition extractText :: "('buf \<Rightarrow> pdf_data option) \<Rightarrow> 'buf \<Rightarrow> extracted option" where
  \<comment> \<open>\<open>None\<close>: \<open>Error('Failed to extract text from PDF')\<close> is thrown\<close>
  "extractText pdfParse pdfBuffer =
     (case pdfParse pdfBuffer of
        None \<Rightarrow> None
      | Some data \<Rightarrow>
          let txt = trim (take MAX_TEXT_LENGTH (dataText data));
              title0 = (case infoTitle data of None \<Rightarrow> [] | Some t \<Rightarrow> t);
              title1 = (if title0 = []
                        then let firstLine = trim (hd (splitOn CHR 0x0A txt))
                             in orElse (take 100 firstLine) ''Untitled Document''
                        else title0)
          in Some \<lparr>extractedText = txt, numPages = numpages data,
                   extractedTitle = cleanTitle title1\<rparr>)"

section \<open>routes/analyze.js\<close>

datatype 'a response =
    Json nat string  \<comment> \<open>\<open>res.status(n).json({ message })\<close>\<close>
  | Sent 'a  \<comment> \<open>status 200 with the body given\<close>

definition routeKeywords ::
  "((string \<times> tally) list \<Rightarrow> (string \<times> tally) list) \<Rightarrow> string \<Rightarrow> string list" where
  \<comment> \<open>the call \<open>extractKeywords(text)\<close> of the route. Where the comparison of the entries is
      not consistent, the order of the sorted array is the one the engine gives: its sort
      is the parameter \<open>engineSort\<close>\<close>
  "routeKeywords engineSort text =
     (case extractKeywords text 10 of
        Some keywords \<Rightarrow> keywords
      | None \<Rightarrow>
         map fst (slice0 (engineSort (entries (foldl countWord [] (tokenize text)))) 10))"

definition analyzeRoute ::
  "((string \<times> tally) list \<Rightarrow> (string \<times> tally) list) \<Rightarrow> ('buf \<Rightarrow> pdf_data option)
     \<Rightarrow> 'buf option \<Rightarrow> reading response" where
  \<comment> \<open>the last argument is \<open>req.file\<close>. The response schema accepts every value of type
      \<^typ>\<open>reading\<close> with three cards, so \<open>AnalysisResponseSchema.parse\<close> throws exactly for
      another number of cards\<close>
  "analyzeRoute engineSort pdfParse file =
     (case file of
        None \<Rightarrow> Json 400 ''No PDF file provided''
      | Some pdfBuffer \<Rightarrow>
         (case extractText pdfParse pdfBuffer of
            None \<Rightarrow> Json 422 ''Failed to extract text from PDF''
          | Some ex \<Rightarrow>
             let txt = extractedText ex in
             if length txt < 10
             then Json 422
               ''Could not extract text from PDF. The document may be scanned or encrypted.''
             else
              let kws = routeKeywords engineSort txt in
              (case generateReading (extractedTitle ex) kws (categorizeDocument kws) txt of
                 None \<Rightarrow> Json 500 ''Failed to analyze PDF''
               | Some r \<Rightarrow>
                  if length (cards r) = 3 then Sent r
                  else Json 500 ''Internal validation error'')))"

section \<open>api/render.js\<close>

subsection \<open>Text helpers\<close>

definition truncateText :: "string \<Rightarrow> int \<Rightarrow> string" where
  "truncateText txt maxLength =
     (if int (length txt) \<le> maxLength then txt else slice0 txt (maxLength - 3) @ ''...'')"

definition wrapStep :: "int \<Rightarrow> string list \<times> string \<Rightarrow> string \<Rightarrow> string list \<times> string" where
  \<comment> \<open>the body of the loop in \<open>wrapText\<close>; the state is \<open>(lines, currentLine)\<close>\<close>
  "wrapStep maxChars st word =
     (let lines = fst st; currentLine = snd st
      in if int (length currentLine) + int (length word) + 1 \<le> maxChars
         then (lines, currentLine @ (if currentLine \<noteq> [] then '' '' else []) @ word)
         else (if currentLine \<noteq> [] then lines @ [currentLine] else lines, word))"

definition wrapText :: "string \<Rightarrow> int \<Rightarrow> string list" where
  "wrapText txt maxChars =
     (let words = splitOn CHR '' '' txt;
          st = foldl (wrapStep maxChars) ([], []) words;
          lines = fst st; currentLine = snd st
      in if currentLine \<noteq> [] then lines @ [currentLine] else lines)"

subsection \<open>Documents of pdf-lib\<close>

text \<open>
  A document is the list of its pages. A page has its size and its content: the content of
  a page of an uploaded document is opaque; the content of a page composed here is the
  sequence of drawing calls, each with the arguments that depend on the reading (for a
  text its font, size and string). Coordinates and colours are left out: they are
  floating-point layout values on which no property below depends.

  The library is a parameter: \<open>load\<close> is \<open>PDFDocument.load(buffer, { ignoreEncryption: true })\<close>
  and is \<open>None\<close> where it throws; \<open>measures font str\<close> tells whether
  \<open>font.widthOfTextAtSize(str, size)\<close> returns, and \<open>draws font str\<close> whether
  \<open>page.drawText(str, { font, ... })\<close> does (both throw on a character that the font cannot
  encode).
\<close>

datatype font = Helvetica | HelveticaBold

datatype drawing = Rectangle | Text font nat string

datatype 'c content = Original 'c | Drawn "drawing list"

record 'c page =
  width :: real
  height :: real
  content :: "'c content"

record ('buf, 'c) pdflib =
  load :: "'buf \<Rightarrow> 'c page list option"
  measures :: "font \<Rightarrow> string \<Rightarrow> bool"
  draws :: "font \<Rightarrow> string \<Rightarrow> bool"

definition getPageIndices :: "'c page list \<Rightarrow> nat list" where
  "getPageIndices doc = [0..<length doc]"

definition copyPages :: "'c page list \<Rightarrow> nat list \<Rightarrow> 'c page list" where
  \<comment> \<open>\<open>copyPages(srcDoc, indices)\<close>, for indices of pages of \<open>srcDoc\<close>\<close>
  "copyPages srcDoc indices = map (\<lambda>i. srcDoc ! i) indices"

subsection \<open>createCoverPage\<close>

text \<open>
  The analysis is the object that \<open>JSON.parse\<close> returns for the form field. Each property
  read by the renderer may be absent (\<open>None\<close>); a property that is present has the type
  that the analyze route gives it. A parsed value that is not such an object (\<open>null\<close>, a
  number, cards that are not card objects) is not modelled.
\<close>

record analysis =
  titleProp :: "string option"
  cardsProp :: "card list option"
  auraProp :: "string option"
  certificationProp :: "string option"

definition missing :: "string option \<Rightarrow> bool" where
  \<comment> \<open>\<open>!prop\<close>: an absent property and the empty string are falsy\<close>
  "missing prop = (case prop of None \<Rightarrow> True | Some str \<Rightarrow> str = [])"

definition orDefault :: "string option \<Rightarrow> string \<Rightarrow> string" where
  \<comment> \<open>\<open>prop || fallback\<close>\<close>
  "orDefault prop fallback = (case prop of None \<Rightarrow> fallback | Some str \<Rightarrow> orElse str fallback)"

definition centred :: "('buf, 'c) pdflib \<Rightarrow> font \<Rightarrow> nat \<Rightarrow> string \<Rightarrow> drawing option" where
  \<comment> \<open>a text whose width is measured with \<open>widthOfTextAtSize\<close> and that is then drawn\<close>
  "centred lib fnt sz str =
     (if measures lib fnt str \<and> draws lib fnt str then Some (Text fnt sz str) else None)"

definition plain :: "('buf, 'c) pdflib \<Rightarrow> font \<Rightarrow> nat \<Rightarrow> string \<Rightarrow> drawing option" where
  \<comment> \<open>a text that is drawn without being measured\<close>
  "plain lib fnt sz str = (if draws lib fnt str then Some (Text fnt sz str) else None)"

definition positionLabels :: "string list" where
  "positionLabels = [''PAST'', ''PRESENT'', ''FUTURE'']"

definition cardBlock :: "('buf, 'c) pdflib \<Rightarrow> card list option \<Rightarrow> nat \<Rightarrow> drawing option list" where
  \<comment> \<open>the body of the loop over \<open>i = 0, 1, 2\<close>: \<open>card = analysis.cards[i]\<close>; reading
      \<open>card.name\<close> of an \<open>undefined\<close> card throws\<close>
  "cardBlock lib cs i =
     (case cs of
        None \<Rightarrow> [None]
      | Some cs' \<Rightarrow>
          if i < length cs'
          then let card = cs' ! i in
               [Some Rectangle,
                centred lib HelveticaBold 10 (positionLabels ! i),
                centred lib HelveticaBold 12 (truncateText (name card) 18)]
               @ map (plain lib Helvetica 8) (take 5 (wrapText (meaning card) 22))
          else [Some Rectangle, centred lib HelveticaBold 10 (positionLabels ! i), None])"

definition auraText :: "analysis \<Rightarrow> string" where
  \<comment> \<open>\<open>'AURA: ' + analysis.aura\<close>\<close>
  "auraText a = ''AURA: '' @ (case auraProp a of None \<Rightarrow> ''undefined'' | Some str \<Rightarrow> str)"

definition certText :: "analysis \<Rightarrow> string" where
  \<comment> \<open>\<open>analysis.certification || 'Certified Chaotic Neutral'\<close>\<close>
  "certText a = orDefault (certificationProp a) ''Certified Chaotic Neutral''"

definition coverDrawings :: "('buf, 'c) pdflib \<Rightarrow> analysis \<Rightarrow> drawing option list" where
  \<comment> \<open>the drawing calls of \<open>createCoverPage\<close> in their order; \<open>None\<close> is a call that throws\<close>
  "coverDrawings lib a =
     [Some Rectangle,
      centred lib HelveticaBold 28 ''PDF TAROT READING'',
      Some Rectangle,
      centred lib Helvetica 14 (truncateText (orDefault (titleProp a) ''Untitled Document'') 50)]
     @ cardBlock lib (cardsProp a) 0 @ cardBlock lib (cardsProp a) 1 @ cardBlock lib (cardsProp a) 2
     @ [Some Rectangle, centred lib HelveticaBold 14 (auraText a),
        Some Rectangle, Some Rectangle, centred lib HelveticaBold 12 (certText a),
        centred lib Helvetica 10 ''pdftarot.app'']"

definition createCoverPage ::
  "('buf, 'c) pdflib \<Rightarrow> analysis \<Rightarrow> real \<Rightarrow> real \<Rightarrow> 'c page list option" where
  \<comment> \<open>the document returned has the one page; \<open>None\<close>: an exception is thrown\<close>
  "createCoverPage lib a pageWidth pageHeight =
     map_option (\<lambda>ds. [\<lparr>width = pageWidth, height = pageHeight, content = Drawn ds\<rparr>])
       (those (coverDrawings lib a))"

subsection \<open>renderMergedPdf and the handler\<close>

definition renderMergedPdf :: "('buf, 'c) pdflib \<Rightarrow> 'buf \<Rightarrow> analysis \<Rightarrow> 'c page list option" where
  \<comment> \<open>the result is the merged document before it is serialised; \<open>None\<close>: an exception is
      thrown (the buffer cannot be loaded, the document has no first page, or the cover
      page cannot be drawn)\<close>
  "renderMergedPdf lib originalPdfBuffer a =
     (case load lib originalPdfBuffer of
        None \<Rightarrow> None
      | Some originalPdf \<Rightarrow>
         (case originalPdf of
            [] \<Rightarrow> None
          | firstPage # _ \<Rightarrow>
             (case createCoverPage lib a (width firstPage) (height firstPage) of
                None \<Rightarrow> None
              | Some coverPdf \<Rightarrow>
                 let coverPage = hd (copyPages coverPdf [0]);
                     mergedPdf = [coverPage];
                     pageIndices = getPageIndices originalPdf;
                     copiedPages = copyPages originalPdf pageIndices
                 in Some (foldl (\<lambda>doc pg. doc @ [pg]) mergedPdf copiedPages))))"

datatype analysis_field =
    NoField  \<comment> \<open>\<open>!analysisStr\<close>: the form has no \<open>analysis\<close> field; in \<open>routes/render.js\<close>, where
                 the field is a string, also the empty field\<close>
  | NotJson  \<comment> \<open>\<open>JSON.parse(analysisStr)\<close> throws; in \<open>api/render.js\<close> this is also the answer
                 to an empty field that the form parser gives as the array of its values,
                 which is not falsy\<close>
  | Parsed analysis

definition handler ::
  "('buf, 'c) pdflib \<Rightarrow> string \<Rightarrow> 'buf option \<Rightarrow> analysis_field \<Rightarrow> 'c page list response" where
  \<comment> \<open>the arguments after the library are \<open>req.method\<close>, the uploaded file and the
      \<open>analysis\<close> field of the form, which is taken as parsed (\<open>parseForm\<close> belongs to the
      transport)\<close>
  "handler lib method file field =
     (if method \<noteq> ''POST'' then Json 405 ''Method not allowed''
      else case file of
        None \<Rightarrow> Json 400 ''No PDF file provided''
      | Some pdfBuffer \<Rightarrow>
         (case field of
            NoField \<Rightarrow> Json 400 ''No analysis data provided''
          | NotJson \<Rightarrow> Json 400 ''Invalid analysis JSON''
          | Parsed a \<Rightarrow>
             (case cardsProp a of
                None \<Rightarrow> Json 400 ''Invalid analysis: missing cards''
              | Some cs \<Rightarrow>
                 if length cs \<noteq> 3 then Json 400 ''Invalid analysis: missing cards''
                 else if missing (auraProp a)
                 then Json 400 ''Invalid analysis: missing aura''
                 else
                  (case renderMergedPdf lib pdfBuffer a of
                     None \<Rightarrow> Json 500 ''Failed to render PDF''
                   | Some mergedPdf \<Rightarrow> Sent mergedPdf))))"

section \<open>routes/render.js\<close>

definition renderRoute ::
  "('buf \<Rightarrow> analysis \<Rightarrow> 'out option) \<Rightarrow> 'buf option \<Rightarrow> analysis_field \<Rightarrow> 'out response" where
  \<comment> \<open>the first argument is \<open>renderMergedPdf\<close> of \<open>services/pdfRenderer.js\<close>\<close>
  "renderRoute render file field =
     (case file of
        None \<Rightarrow> Json 400 ''No PDF file provided''
      | Some buffer \<Rightarrow>
         (case field of
            NoField \<Rightarrow> Json 400 ''No analysis data provided''
          | NotJson \<Rightarrow> Json 400 ''Invalid analysis JSON''
          | Parsed a \<Rightarrow>
             (case cardsProp a of
                None \<Rightarrow> Json 400 ''Invalid analysis: missing cards''
              | Some cs \<Rightarrow>
                 if length cs \<noteq> 3 then Json 400 ''Invalid analysis: missing cards''
                 else if missing (auraProp a)
                 then Json 400 ''Invalid analysis: missing aura''
                 else
                  (case render buffer a of
                     None \<Rightarrow> Json 500 ''Failed to render PDF''
                   | Some mergedPdfBuffer \<Rightarrow> Sent mergedPdfBuffer))))"

section \<open>Auxiliary notions for the properties\<close>

text \<open>
  The lines that \<open>wrapText\<close> returns when its loop ends in the state \<open>st\<close>.
\<close>

definition emitted :: "string list \<times> string \<Rightarrow> string list" where
  "emitted st = (if snd st \<noteq> [] then fst st @ [snd st] else fst st)"

text \<open>
  \<open>unfit m l l'\<close>: the first word of the line \<open>l'\<close> does not fit at the end of the line \<open>l\<close> within
  \<open>m\<close> characters. \<open>greedy m st\<close> is the invariant of the loop of \<open>wrapText\<close>: every line
  was closed only because the next word did not fit.
\<close>

definition unfit :: "int \<Rightarrow> string \<Rightarrow> string \<Rightarrow> bool" where
  "unfit m l l' = (m < int (length l) + int (length (takeWhile (\<lambda>c. c \<noteq> CHR '' '') l')) + 1)"

definition greedy :: "int \<Rightarrow> string list \<times> string \<Rightarrow> bool" where
  "greedy m st =
     (successively (unfit m) (fst st)
      \<and> (fst st \<noteq> [] \<longrightarrow>
           (if snd st = [] then m < int (length (last (fst st))) + 1
            else unfit m (last (fst st)) (snd st))))"

text \<open>
  \<open>firstIndex xs x\<close> is the position at which \<open>x\<close> is first seen in \<open>xs\<close>.
\<close>

definition firstIndex :: "'a list \<Rightarrow> 'a \<Rightarrow> nat" where
  "firstIndex xs x = length (takeWhile (\<lambda>y. y \<noteq> x) xs)"

text \<open>
  \<open>enumBefore toks a b\<close>: the key \<open>a\<close> comes before the key \<open>b\<close> when the frequency object built
  from the tokens \<open>toks\<close> is enumerated. \<open>ranksBefore toks a b\<close>: \<open>a\<close> is more frequent than
  \<open>b\<close>, or as frequent and enumerated before it.
\<close>

definition enumBefore :: "string list \<Rightarrow> string \<Rightarrow> string \<Rightarrow> bool" where
  "enumBefore toks a b =
     (case (arrayIndex a, arrayIndex b) of
        (Some i, Some j) \<Rightarrow> i < j
      | (Some i, None) \<Rightarrow> True
      | (None, Some j) \<Rightarrow> False
      | (None, None) \<Rightarrow> firstIndex toks a < firstIndex toks b)"

definition ranksBefore :: "string list \<Rightarrow> string \<Rightarrow> string \<Rightarrow> bool" where
  "ranksBefore toks a b =
     (count_list toks a > count_list toks b
      \<or> (count_list toks a = count_list toks b \<and> enumBefore toks a b))"

text \<open>
  \<open>counted ws obj\<close>: the object \<open>obj\<close> holds, for each of the words \<open>ws\<close>, its number of
  occurrences, and its keys are in the order in which the words were first seen.
\<close>

definition counted :: "string list \<Rightarrow> (string \<times> tally) list \<Rightarrow> bool" where
  "counted ws obj =
     (distinct (map fst obj) \<and> set (map fst obj) = set ws
      \<and> (\<forall>e\<in>set obj. snd e = Count (count_list ws (fst e)))
      \<and> sorted_wrt (\<lambda>a b. firstIndex ws a < firstIndex ws b) (map fst obj))"

text \<open>
  Two sample documents for the analyze route, given by what pdf-parse extracts from them.
  Their texts start with the same 500 characters, a rule of hyphens, and go on with
  different words. \<open>sampleReading\<close> is the reading of both up to keywords and category.
\<close>

definition sampleA :: pdf_data where
  "sampleA = \<lparr>dataText = replicate 500 CHR ''-'' @ '' software software'',
              infoTitle = Some ''Report'', numpages = 1\<rparr>"

definition sampleB :: pdf_data where
  "sampleB = \<lparr>dataText = replicate 500 CHR ''-'' @ '' contract contract'',
              infoTitle = Some ''Report'', numpages = 1\<rparr>"

definition sampleReading :: "string list \<Rightarrow> string \<Rightarrow> reading" where
  "sampleReading kws cat =
     \<lparr>title = ''Report'', keywords' = kws, category = cat,
      aura = ''Approval Seeker'', certification = ''Carefully Cluttered'',
      cards = [drawn ''past'' (CARD_DECKS_past ! 4), drawn ''present'' (CARD_DECKS_present ! 5),
               drawn ''future'' (CARD_DECKS_future ! 6)]\<rparr>"

text \<open>
  \<open>drawable lib a\<close>: every drawing call of the cover page of the analysis \<open>a\<close> returns, that
  is, the cards are there and the fonts can measure and draw every text of the page.
\<close>

definition drawable :: "('buf, 'c) pdflib \<Rightarrow> analysis \<Rightarrow> bool" where
  "drawable lib a = list_all (\<lambda>d. d \<noteq> None) (coverDrawings lib a)"

text \<open>
  A sample library, upload and analysis for the render handler. The buffer is the document
  it holds, and the fonts take the printable ASCII characters. The document has two pages.
  The analysis has three cards that all have the position \<open>past\<close>, and no certification.
  \<open>sampleCover\<close> is the cover page composed for it.
\<close>

definition printable :: "string \<Rightarrow> bool" where
  "printable str = list_all (\<lambda>c. 32 \<le> charCode c \<and> charCode c < 127) str"

definition sampleLib :: "(nat page list, nat) pdflib" where
  "sampleLib = \<lparr>load = (\<lambda>buffer. Some buffer),
                measures = (\<lambda>fnt str. printable str),
                draws = (\<lambda>fnt str. printable str)\<rparr>"

definition sampleDoc :: "nat page list" where
  "sampleDoc = [\<lparr>width = 612, height = 792, content = Original 1\<rparr>,
                \<lparr>width = 612, height = 792, content = Original 2\<rparr>]"

definition sampleCard :: card where
  "sampleCard = \<lparr>name = ''The Procrastinator'', meaning = ''It has known neglect, yet persevered.'',
                 position = ''past''\<rparr>"

definition sampleAnalysis :: analysis where
  "sampleAnalysis = \<lparr>titleProp = Some ''Report'',
                     cardsProp = Some [sampleCard, sampleCard, sampleCard],
                     auraProp = Some ''Focus Goblin'', certificationProp = None\<rparr>"

definition sampleCover :: "nat page" where
  "sampleCover =
     \<lparr>width = 612, height = 792,
      content = Drawn
        [Rectangle, Text HelveticaBold 28 ''PDF TAROT READING'', Rectangle,
         Text Helvetica 14 ''Report'',
         Rectangle, Text HelveticaBold 10 ''PAST'', Text HelveticaBold 12 ''The Procrastinator'',
         Text Helvetica 8 ''It has known neglect,'', Text Helvetica 8 ''yet persevered.'',
         Rectangle, Text HelveticaBold 10 ''PRESENT'', Text HelveticaBold 12 ''The Procrastinator'',
         Text Helvetica 8 ''It has known neglect,'', Text Helvetica 8 ''yet persevered.'',
         Rectangle, Text HelveticaBold 10 ''FUTURE'', Text HelveticaBold 12 ''The Procrastinator'',
         Text Helvetica 8 ''It has known neglect,'', Text Helvetica 8 ''yet persevered.'',
         Rectangle, Text HelveticaBold 14 ''AURA: Focus Goblin'',
         Rectangle, Rectangle, Text HelveticaBold 12 ''Certified Chaotic Neutral'',
         Text Helvetica 10 ''pdftarot.app'']\<rparr>"

section \<open>Properties of the seeding and the selection\<close>

lemma toInt32_mod: "toInt32 x mod 2 ^ 32 = x mod 2 ^ 32"
  unfolding toInt32_def by (simp add: mod_diff_left_eq)

lemma toInt32_eqI: "x mod 2 ^ 32 = y mod 2 ^ 32 \<Longrightarrow> toInt32 x = toInt32 y"
  unfolding toInt32_def by (metis mod_add_left_eq)

lemma hashStep_polyStep: "hashStep h c = polyStep h c"
proof -
  have "(toInt32 h * 2 ^ 5) mod 2 ^ 32 = (h * 2 ^ 5) mod 2 ^ 32"
    by (rule mod_mult_cong [OF toInt32_mod refl])
  then have "toInt32 (toInt32 h * 2 ^ 5) mod 2 ^ 32 = (h * 2 ^ 5) mod 2 ^ 32"
    by (simp only: toInt32_mod)
  then have "(toInt32 (toInt32 h * 2 ^ 5) - h) mod 2 ^ 32 = (h * 2 ^ 5 - h) mod 2 ^ 32"
    by (rule mod_diff_cong [OF _ refl])
  then have "(toInt32 (toInt32 h * 2 ^ 5) - h + c) mod 2 ^ 32 = (h * 2 ^ 5 - h + c) mod 2 ^ 32"
    by (rule mod_add_cong [OF _ refl])
  also have "h * 2 ^ 5 - h + c = h * 31 + c"
    by simp
  finally have "toInt32 (toInt32 (toInt32 h * 2 ^ 5) - h + c) = toInt32 (h * 31 + c)"
    by (rule toInt32_eqI)
  then show ?thesis
    by (simp add: hashStep_def polyStep_def js_and_def js_shl_def Let_def)
qed

lemma hashCode_polyHash: "hashCode str = \<bar>polyHash str\<bar>"
proof -
  have "hashStep = polyStep"
    by (intro ext) (rule hashStep_polyStep)
  then show ?thesis
    by (simp add: hashCode_def polyHash_def)
qed

lemma hashCode_nonneg: "0 \<le> hashCode str"
  by (simp add: hashCode_def)

lemma js_rem_nonneg: "0 \<le> a \<Longrightarrow> 0 < b \<Longrightarrow> js_rem a b = a mod b"
  by (cases "a = 0") (simp_all add: js_rem_def)

lemma deck_sizes:
  "length CARD_DECKS_past = 8" "length CARD_DECKS_present = 8" "length CARD_DECKS_future = 8"
  "length AURAS = 10" "length CERTIFICATIONS = 10"
  by (simp_all add: CARD_DECKS_past_def CARD_DECKS_present_def CARD_DECKS_future_def
      AURAS_def CERTIFICATIONS_def)

lemma seededIndex_mod:
  assumes "0 \<le> seed" "0 \<le> offset" "array \<noteq> []"
  shows "seededIndex array seed offset = (seed + offset) mod int (length array)"
  using assms by (simp add: seededIndex_def js_rem_nonneg)

lemma selectSeeded_Some:
  assumes "0 \<le> seed" "0 \<le> offset" "array \<noteq> []"
  shows "selectSeeded array seed offset
           = Some (array ! nat ((seed + offset) mod int (length array)))"
  using assms by (simp add: selectSeeded_def seededIndex_mod Let_def)

lemma generateReading_eq:
  "generateReading ttl kws cat txt =
     Some \<lparr>title = ttl, keywords' = kws, category = cat,
           aura = name (AURAS ! nat ((readingSeed txt ttl + 3) mod 10)),
           certification = CERTIFICATIONS ! nat ((readingSeed txt ttl + 4) mod 10),
           cards = [drawn ''past'' (CARD_DECKS_past ! nat (readingSeed txt ttl mod 8)),
                    drawn ''present'' (CARD_DECKS_present ! nat ((readingSeed txt ttl + 1) mod 8)),
                    drawn ''future'' (CARD_DECKS_future ! nat ((readingSeed txt ttl + 2) mod 8))]\<rparr>"
proof -
  have s: "0 \<le> readingSeed txt ttl"
    by (simp add: readingSeed_def hashCode_nonneg)
  have ne: "CARD_DECKS_past \<noteq> []" "CARD_DECKS_present \<noteq> []" "CARD_DECKS_future \<noteq> []"
    "AURAS \<noteq> []" "CERTIFICATIONS \<noteq> []"
    using deck_sizes by auto
  show ?thesis
    unfolding generateReading_def Let_def
    by (simp add: selectSeeded_Some [OF s] ne deck_sizes)
qed

text \<open>
  Claim C5. The seed of a reading is the absolute value of the polynomial rolling hash
  \<open>hash = hash*31 + charCode\<close>, wrapped to a signed 32-bit integer at every step, of the
  first 500 characters of the text followed by the title; and one step of the loop of
  \<open>hashCode\<close>, written with \<open>(hash << 5) - hash\<close> and \<open>hash & hash\<close>, is that step for every
  value of \<open>hash\<close> and every character code.
\<close>

theorem seed_is_wrapped_polynomial_hash:
  "readingSeed txt ttl = \<bar>polyHash (take 500 txt @ ttl)\<bar>
   \<and> (\<forall>hash char. hashStep hash char = polyStep hash char)"
  by (simp add: readingSeed_def hashCode_polyHash hashStep_polyStep)

text \<open>
  Claim C6. A seed is never negative. For every seed that is not negative, the selections
  for the past, present and future card, the aura and the certification are the entries at
  \<open>(seed + offset) mod size\<close> with the offsets 0, 1, 2, 3, 4 and the deck sizes 8, 8, 8,
  10, 10; the card indices lie in 0..7, the aura and certification indices in 0..9. So
  \<open>generateReading\<close> always returns the reading made of these five entries for its seed.
\<close>

theorem selection_indices_in_range:
  assumes "0 \<le> seed"
  shows "0 \<le> readingSeed txt ttl
    \<and> length CARD_DECKS_past = 8 \<and> length CARD_DECKS_present = 8
    \<and> length CARD_DECKS_future = 8 \<and> length AURAS = 10 \<and> length CERTIFICATIONS = 10
    \<and> seededIndex CARD_DECKS_past seed 0 = (seed + 0) mod 8
    \<and> seededIndex CARD_DECKS_present seed 1 = (seed + 1) mod 8
    \<and> seededIndex CARD_DECKS_future seed 2 = (seed + 2) mod 8
    \<and> seededIndex AURAS seed 3 = (seed + 3) mod 10
    \<and> seededIndex CERTIFICATIONS seed 4 = (seed + 4) mod 10
    \<and> selectSeeded CARD_DECKS_past seed 0
         = Some (CARD_DECKS_past ! nat (seededIndex CARD_DECKS_past seed 0))
    \<and> selectSeeded CARD_DECKS_present seed 1
         = Some (CARD_DECKS_present ! nat (seededIndex CARD_DECKS_present seed 1))
    \<and> selectSeeded CARD_DECKS_future seed 2
         = Some (CARD_DECKS_future ! nat (seededIndex CARD_DECKS_future seed 2))
    \<and> selectSeeded AURAS seed 3 = Some (AURAS ! nat (seededIndex AURAS seed 3))
    \<and> selectSeeded CERTIFICATIONS seed 4
         = Some (CERTIFICATIONS ! nat (seededIndex CERTIFICATIONS seed 4))
    \<and> seededIndex CARD_DECKS_past seed 0 \<in> {0..7}
    \<and> seededIndex CARD_DECKS_present seed 1 \<in> {0..7}
    \<and> seededIndex CARD_DECKS_future seed 2 \<in> {0..7}
    \<and> seededIndex AURAS seed 3 \<in> {0..9}
    \<and> seededIndex CERTIFICATIONS seed 4 \<in> {0..9}
    \<and> generateReading ttl kws cat txt =
        Some \<lparr>title = ttl, keywords' = kws, category = cat,
           aura = name (AURAS ! nat ((readingSeed txt ttl + 3) mod 10)),
           certification = CERTIFICATIONS ! nat ((readingSeed txt ttl + 4) mod 10),
           cards = [drawn ''past'' (CARD_DECKS_past ! nat (readingSeed txt ttl mod 8)),
                    drawn ''present'' (CARD_DECKS_present ! nat ((readingSeed txt ttl + 1) mod 8)),
                    drawn ''future'' (CARD_DECKS_future ! nat ((readingSeed txt ttl + 2) mod 8))]\<rparr>"
proof -
  have ne: "CARD_DECKS_past \<noteq> []" "CARD_DECKS_present \<noteq> []" "CARD_DECKS_future \<noteq> []"
    "AURAS \<noteq> []" "CERTIFICATIONS \<noteq> []"
    using deck_sizes by auto
  have idx: "seededIndex CARD_DECKS_past seed 0 = (seed + 0) mod 8"
    "seededIndex CARD_DECKS_present seed 1 = (seed + 1) mod 8"
    "seededIndex CARD_DECKS_future seed 2 = (seed + 2) mod 8"
    "seededIndex AURAS seed 3 = (seed + 3) mod 10"
    "seededIndex CERTIFICATIONS seed 4 = (seed + 4) mod 10"
    using assms by (simp_all add: seededIndex_mod ne deck_sizes)
  have sel: "selectSeeded CARD_DECKS_past seed 0
         = Some (CARD_DECKS_past ! nat (seededIndex CARD_DECKS_past seed 0))"
    "selectSeeded CARD_DECKS_present seed 1
         = Some (CARD_DECKS_present ! nat (seededIndex CARD_DECKS_present seed 1))"
    "selectSeeded CARD_DECKS_future seed 2
         = Some (CARD_DECKS_future ! nat (seededIndex CARD_DECKS_future seed 2))"
    "selectSeeded AURAS seed 3 = Some (AURAS ! nat (seededIndex AURAS seed 3))"
    "selectSeeded CERTIFICATIONS seed 4
         = Some (CERTIFICATIONS ! nat (seededIndex CERTIFICATIONS seed 4))"
    using assms by (simp_all add: selectSeeded_Some seededIndex_mod ne)
  have rng: "seededIndex CARD_DECKS_past seed 0 \<in> {0..7}"
    "seededIndex CARD_DECKS_present seed 1 \<in> {0..7}"
    "seededIndex CARD_DECKS_future seed 2 \<in> {0..7}"
    "seededIndex AURAS seed 3 \<in> {0..9}"
    "seededIndex CERTIFICATIONS seed 4 \<in> {0..9}"
    unfolding idx by simp_all
  have "0 \<le> readingSeed txt ttl"
    by (simp add: readingSeed_def hashCode_nonneg)
  then show ?thesis
    using idx sel rng deck_sizes generateReading_eq [of ttl kws cat "txt"] by blast
qed

theorem selection_indices_in_range_witness:
  "seededIndex CARD_DECKS_past 2147483648 0 = 0
   \<and> seededIndex AURAS 2147483648 3 = 1
   \<and> seededIndex CERTIFICATIONS 2147483648 4 \<in> {0..9}
   \<and> selectSeeded CERTIFICATIONS 2147483648 4 = Some ''Officially Overthought''"
proof -
  have h: "(0::int) \<le> 2147483648" by simp
  have c: "CERTIFICATIONS ! nat 2 = ''Officially Overthought''"
    by (simp add: CERTIFICATIONS_def)
  show ?thesis
    using selection_indices_in_range [OF h] c by simp
qed

section \<open>Properties of the word wrap\<close>

lemma wrapText_emitted:
  "wrapText txt m = emitted (foldl (wrapStep m) ([], []) (splitOn CHR '' '' txt))"
  by (simp add: wrapText_def emitted_def Let_def)

lemma splitOn_nonempty: "splitOn sep s \<noteq> []"
  by (induction s) (auto split: list.splits)

lemma splitOn_no_sep: "w \<in> set (splitOn sep s) \<Longrightarrow> sep \<notin> set w"
  by (induction s arbitrary: w) (auto split: list.splits if_splits)

lemma splitOn_id: "sep \<notin> set w \<Longrightarrow> splitOn sep w = [w]"
  by (induction w) auto

lemma splitOn_append_sep: "splitOn sep (a @ sep # b) = splitOn sep a @ splitOn sep b"
  by (induction a) (auto split: list.splits simp: splitOn_nonempty)

lemma hd_splitOn: "hd (splitOn sep s) = takeWhile (\<lambda>c. c \<noteq> sep) s"
  by (induction s) (auto split: list.splits simp: splitOn_nonempty)

lemma emitted_wrapStep_words:
  assumes "w \<noteq> []" "CHR '' '' \<notin> set w"
  shows "concat (map (splitOn CHR '' '') (emitted (wrapStep m st w)))
         = concat (map (splitOn CHR '' '') (emitted st)) @ [w]"
proof (cases "snd st = []")
  case True
  with assms show ?thesis
    by (simp add: emitted_def wrapStep_def Let_def splitOn_id)
next
  case False
  with assms show ?thesis
    using splitOn_append_sep [of "CHR '' ''" "snd st" w]
    by (simp add: emitted_def wrapStep_def Let_def splitOn_id)
qed

lemma emitted_foldl_words:
  assumes "\<forall>w\<in>set ws. w \<noteq> [] \<and> CHR '' '' \<notin> set w"
  shows "concat (map (splitOn CHR '' '') (emitted (foldl (wrapStep m) st ws)))
         = concat (map (splitOn CHR '' '') (emitted st)) @ ws"
  using assms
proof (induction ws arbitrary: st)
  case Nil
  then show ?case by simp
next
  case (Cons w ws)
  then show ?case
    by (simp add: emitted_wrapStep_words)
qed

text \<open>
  Claim C9. If every word of the input (the pieces between single spaces) is non-empty, the
  words of the lines returned, taken in order, are exactly the words of the input: none is
  lost, repeated or moved.
\<close>

theorem wrapText_keeps_words:
  assumes "\<forall>w\<in>set (splitOn CHR '' '' txt). w \<noteq> []"
  shows "concat (map (splitOn CHR '' '') (wrapText txt maxChars)) = splitOn CHR '' '' txt"
proof -
  have "\<forall>w\<in>set (splitOn CHR '' '' txt). w \<noteq> [] \<and> CHR '' '' \<notin> set w"
    using assms splitOn_no_sep by blast
  then show ?thesis
    by (simp add: wrapText_emitted emitted_foldl_words) (simp add: emitted_def)
qed

lemma successively_nth:
  "successively P xs \<Longrightarrow> Suc i < length xs \<Longrightarrow> P (xs ! i) (xs ! Suc i)"
proof (induction xs arbitrary: i)
  case Nil
  then show ?case by simp
next
  case (Cons x xs)
  show ?case
  proof (cases i)
    case 0
    with Cons.prems show ?thesis
      by (cases xs) auto
  next
    case (Suc j)
    with Cons.prems have "successively P xs" "Suc j < length xs"
      by (auto simp: successively_Cons)
    then have "P (xs ! j) (xs ! Suc j)"
      by (rule Cons.IH)
    with Suc show ?thesis by simp
  qed
qed

lemma wrapStep_bound:
  assumes "w \<in> W"
    and "\<forall>l\<in>set (fst st). int (length l) \<le> m \<or> l \<in> W"
    and "snd st = [] \<or> int (length (snd st)) \<le> m \<or> snd st \<in> W"
  shows "(\<forall>l\<in>set (fst (wrapStep m st w)). int (length l) \<le> m \<or> l \<in> W)
       \<and> (snd (wrapStep m st w) = [] \<or> int (length (snd (wrapStep m st w))) \<le> m
            \<or> snd (wrapStep m st w) \<in> W)"
  using assms by (auto simp: wrapStep_def Let_def)

lemma foldl_wrapStep_bound:
  assumes "set ws \<subseteq> W"
    and "\<forall>l\<in>set (fst st). int (length l) \<le> m \<or> l \<in> W"
    and "snd st = [] \<or> int (length (snd st)) \<le> m \<or> snd st \<in> W"
  shows "\<forall>l\<in>set (emitted (foldl (wrapStep m) st ws)). int (length l) \<le> m \<or> l \<in> W"
  using assms
proof (induction ws arbitrary: st)
  case Nil
  then show ?case by (auto simp: emitted_def)
next
  case (Cons w ws)
  have w: "w \<in> W" and ws: "set ws \<subseteq> W"
    using Cons.prems(1) by simp_all
  note step = wrapStep_bound [OF w Cons.prems(2,3)]
  have "\<forall>l\<in>set (emitted (foldl (wrapStep m) (wrapStep m st w) ws)).
          int (length l) \<le> m \<or> l \<in> W"
    using ws step by (intro Cons.IH) blast+
  then show ?case by simp
qed

lemma takeWhile_no_space: "CHR '' '' \<notin> set w \<Longrightarrow> takeWhile (\<lambda>c. c \<noteq> CHR '' '') w = w"
  by (induction w) auto

lemma takeWhile_before_space:
  "takeWhile (\<lambda>c. c \<noteq> CHR '' '') (cur @ CHR '' '' # w) = takeWhile (\<lambda>c. c \<noteq> CHR '' '') cur"
  by (induction cur) auto

lemma unfit_append: "unfit m l (cur @ CHR '' '' # w) = unfit m l cur"
  by (simp only: unfit_def takeWhile_before_space)

lemma unfit_word: "CHR '' '' \<notin> set w \<Longrightarrow> unfit m l w = (m < int (length l) + int (length w) + 1)"
  by (simp add: unfit_def takeWhile_no_space)

lemma wrapStep_greedy:
  assumes "CHR '' '' \<notin> set w" "greedy m st"
  shows "greedy m (wrapStep m st w)"
proof (cases "int (length (snd st)) + int (length w) + 1 \<le> m")
  case fits: True
  show ?thesis
  proof (cases "snd st = []")
    case True
    with fits assms show ?thesis
      by (auto simp: greedy_def wrapStep_def Let_def unfit_word)
  next
    case False
    with fits assms show ?thesis
      by (auto simp: greedy_def wrapStep_def Let_def unfit_append)
  qed
next
  case nofit: False
  show ?thesis
  proof (cases "snd st = []")
    case True
    with nofit assms show ?thesis
      by (auto simp: greedy_def wrapStep_def Let_def unfit_word)
  next
    case False
    with nofit assms show ?thesis
      by (auto simp: greedy_def wrapStep_def Let_def unfit_word successively_append_iff)
  qed
qed

lemma foldl_wrapStep_greedy:
  assumes "\<forall>w\<in>set ws. CHR '' '' \<notin> set w" "greedy m st"
  shows "greedy m (foldl (wrapStep m) st ws)"
  using assms by (induction ws arbitrary: st) (simp_all add: wrapStep_greedy)

lemma greedy_emitted: "greedy m st \<Longrightarrow> successively (unfit m) (emitted st)"
  by (auto simp: greedy_def emitted_def successively_append_iff)

lemma wrapText_successively: "successively (unfit m) (wrapText txt m)"
proof -
  have "greedy m ([], [])" by (simp add: greedy_def)
  moreover have "\<forall>w\<in>set (splitOn CHR '' '' txt). CHR '' '' \<notin> set w"
    using splitOn_no_sep by blast
  ultimately show ?thesis
    unfolding wrapText_emitted by (intro greedy_emitted foldl_wrapStep_greedy)
qed

lemma splitOn_length_le: "w \<in> set (splitOn sep s) \<Longrightarrow> length w \<le> length s"
proof (induction s arbitrary: w)
  case Nil
  then show ?case by simp
next
  case (Cons c s)
  show ?case
  proof (cases "c = sep")
    case True
    with Cons show ?thesis by (auto simp: le_Suc_eq)
  next
    case False
    obtain v vs where sp: "splitOn sep s = v # vs"
      using splitOn_nonempty [of sep s] by (cases "splitOn sep s") auto
    with False Cons.prems have "w = c # v \<or> w \<in> set vs"
      by auto
    then show ?thesis
    proof
      assume "w = c # v"
      moreover have "length v \<le> length s"
        using Cons.IH [of v] sp by simp
      ultimately show ?thesis by simp
    next
      assume "w \<in> set vs"
      then have "length w \<le> length s"
        using Cons.IH [of w] sp by simp
      then show ?thesis by simp
    qed
  qed
qed

lemma emitted_wrapStep_empty_word:
  "filter (\<lambda>w. w \<noteq> []) (concat (map (splitOn CHR '' '') (emitted (wrapStep m st []))))
     = filter (\<lambda>w. w \<noteq> []) (concat (map (splitOn CHR '' '') (emitted st)))"
proof (cases "snd st = []")
  case True
  then show ?thesis
    by (simp add: emitted_def wrapStep_def Let_def)
next
  case False
  then show ?thesis
    using splitOn_append_sep [of "CHR '' ''" "snd st" "[]"]
    by (simp add: emitted_def wrapStep_def Let_def)
qed

lemma emitted_foldl_nonempty_words:
  assumes "\<forall>w\<in>set ws. CHR '' '' \<notin> set w"
  shows "filter (\<lambda>w. w \<noteq> []) (concat (map (splitOn CHR '' '') (emitted (foldl (wrapStep m) st ws))))
         = filter (\<lambda>w. w \<noteq> []) (concat (map (splitOn CHR '' '') (emitted st)))
           @ filter (\<lambda>w. w \<noteq> []) ws"
  using assms
proof (induction ws arbitrary: st)
  case Nil
  then show ?case by simp
next
  case (Cons w ws)
  then have ih: "filter (\<lambda>w. w \<noteq> [])
        (concat (map (splitOn CHR '' '') (emitted (foldl (wrapStep m) (wrapStep m st w) ws))))
      = filter (\<lambda>w. w \<noteq> []) (concat (map (splitOn CHR '' '') (emitted (wrapStep m st w))))
        @ filter (\<lambda>w. w \<noteq> []) ws"
    by simp
  show ?case
  proof (cases "w = []")
    case True
    then show ?thesis
      using ih by (simp add: emitted_wrapStep_empty_word)
  next
    case False
    moreover have "CHR '' '' \<notin> set w"
      using Cons.prems by simp
    ultimately have "concat (map (splitOn CHR '' '') (emitted (wrapStep m st w)))
         = concat (map (splitOn CHR '' '') (emitted st)) @ [w]"
      by (rule emitted_wrapStep_words)
    with False show ?thesis
      using ih by simp
  qed
qed

lemma wrapText_nonempty_words:
  "filter (\<lambda>w. w \<noteq> []) (concat (map (splitOn CHR '' '') (wrapText txt m)))
     = filter (\<lambda>w. w \<noteq> []) (splitOn CHR '' '' txt)"
proof -
  have "\<forall>w\<in>set (splitOn CHR '' '' txt). CHR '' '' \<notin> set w"
    using splitOn_no_sep by blast
  then show ?thesis
    by (simp add: wrapText_emitted emitted_foldl_nonempty_words) (simp add: emitted_def)
qed

lemma wrapStep_lines_nonempty:
  "[] \<notin> set (fst st) \<Longrightarrow> [] \<notin> set (fst (wrapStep m st w))"
  by (simp add: wrapStep_def Let_def)

lemma foldl_wrapStep_lines_nonempty:
  "[] \<notin> set (fst st) \<Longrightarrow> [] \<notin> set (fst (foldl (wrapStep m) st ws))"
  by (induction ws arbitrary: st) (simp_all add: wrapStep_lines_nonempty)

lemma wrapText_lines_nonempty: "[] \<notin> set (wrapText txt m)"
  using foldl_wrapStep_lines_nonempty [of "([], [])" m "splitOn CHR '' '' txt"]
  by (simp add: wrapText_emitted emitted_def)

lemma wrapText_bound:
  "\<forall>line\<in>set (wrapText txt m).
      int (length line) \<le> m \<or> (line \<in> set (splitOn CHR '' '' txt) \<and> CHR '' '' \<notin> set line)"
proof -
  have "\<forall>l\<in>set (wrapText txt m). int (length l) \<le> m \<or> l \<in> set (splitOn CHR '' '' txt)"
    unfolding wrapText_emitted by (rule foldl_wrapStep_bound) simp_all
  then show ?thesis
    using splitOn_no_sep by blast
qed

lemma wrapText_long_word:
  assumes w: "w \<in> set (splitOn CHR '' '' txt)" and ne: "w \<noteq> []" and long: "m < int (length w)"
  shows "w \<in> set (wrapText txt m)"
proof -
  from w ne have "w \<in> set (filter (\<lambda>w. w \<noteq> []) (splitOn CHR '' '' txt))"
    by simp
  then have "w \<in> set (filter (\<lambda>w. w \<noteq> []) (concat (map (splitOn CHR '' '') (wrapText txt m))))"
    by (simp only: wrapText_nonempty_words)
  then obtain line where line: "line \<in> set (wrapText txt m)" and wl: "w \<in> set (splitOn CHR '' '' line)"
    by auto
  from wl have "length w \<le> length line"
    by (rule splitOn_length_le)
  with long have "\<not> int (length line) \<le> m"
    by simp
  with line wrapText_bound [of "txt" m] have "CHR '' '' \<notin> set line"
    by blast
  then have "splitOn CHR '' '' line = [line]"
    by (rule splitOn_id)
  with wl line show ?thesis by simp
qed

text \<open>
  Claim C4. \<open>wrapText\<close> fills greedily. It runs the loop step over the words of the input,
  the pieces between single spaces, and pushes the last line when it is not empty; a step
  appends the word to the current line exactly when
  \<open>len(currentLine) + len(word) + 1 \<le> maxChars\<close>, and otherwise closes the line and starts a
  new one with the word. As a result the non-empty words of the lines returned are the
  non-empty words of the input, in the same order, and no line returned is empty; no line is
  longer than \<open>maxChars\<close> unless it is one whole word of the input, unbroken; every non-empty
  word of the input that is longer than \<open>maxChars\<close> is a line of its own; and a line ends only
  where the first word of the next line did not fit.
\<close>

theorem wrapText_greedy_fill:
  "(\<forall>ls cur word.
      wrapStep maxChars (ls, cur) word =
        (if int (length cur) + int (length word) + 1 \<le> maxChars
         then (ls, cur @ (if cur \<noteq> [] then '' '' else []) @ word)
         else (if cur \<noteq> [] then ls @ [cur] else ls, word)))
   \<and> wrapText txt maxChars =
        (let st = foldl (wrapStep maxChars) ([], []) (splitOn CHR '' '' txt)
         in if snd st \<noteq> [] then fst st @ [snd st] else fst st)
   \<and> filter (\<lambda>w. w \<noteq> []) (concat (map (splitOn CHR '' '') (wrapText txt maxChars)))
        = filter (\<lambda>w. w \<noteq> []) (splitOn CHR '' '' txt)
   \<and> [] \<notin> set (wrapText txt maxChars)
   \<and> (\<forall>line\<in>set (wrapText txt maxChars).
        int (length line) \<le> maxChars
        \<or> (line \<in> set (splitOn CHR '' '' txt) \<and> CHR '' '' \<notin> set line))
   \<and> (\<forall>w\<in>set (splitOn CHR '' '' txt).
        w \<noteq> [] \<and> maxChars < int (length w) \<longrightarrow> w \<in> set (wrapText txt maxChars))
   \<and> (\<forall>i. Suc i < length (wrapText txt maxChars) \<longrightarrow>
        maxChars < int (length (wrapText txt maxChars ! i))
                   + int (length (hd (splitOn CHR '' '' (wrapText txt maxChars ! Suc i)))) + 1)"
proof (intro conjI allI impI ballI)
  fix ls cur word
  show "wrapStep maxChars (ls, cur) word =
        (if int (length cur) + int (length word) + 1 \<le> maxChars
         then (ls, cur @ (if cur \<noteq> [] then '' '' else []) @ word)
         else (if cur \<noteq> [] then ls @ [cur] else ls, word))"
    by (simp add: wrapStep_def Let_def)
next
  show "wrapText txt maxChars =
        (let st = foldl (wrapStep maxChars) ([], []) (splitOn CHR '' '' txt)
         in if snd st \<noteq> [] then fst st @ [snd st] else fst st)"
    by (simp add: wrapText_emitted emitted_def Let_def)
next
  show "filter (\<lambda>w. w \<noteq> []) (concat (map (splitOn CHR '' '') (wrapText txt maxChars)))
        = filter (\<lambda>w. w \<noteq> []) (splitOn CHR '' '' txt)"
    by (rule wrapText_nonempty_words)
next
  show "[] \<notin> set (wrapText txt maxChars)"
    by (rule wrapText_lines_nonempty)
next
  fix line
  assume "line \<in> set (wrapText txt maxChars)"
  then show "int (length line) \<le> maxChars
        \<or> (line \<in> set (splitOn CHR '' '' txt) \<and> CHR '' '' \<notin> set line)"
    using wrapText_bound [of "txt" maxChars] by blast
next
  fix w
  assume "w \<in> set (splitOn CHR '' '' txt)" and "w \<noteq> [] \<and> maxChars < int (length w)"
  then show "w \<in> set (wrapText txt maxChars)"
    using wrapText_long_word [of w "txt" maxChars] by simp
next
  fix i
  assume "Suc i < length (wrapText txt maxChars)"
  with wrapText_successively [of maxChars "txt"]
  have "unfit maxChars (wrapText txt maxChars ! i) (wrapText txt maxChars ! Suc i)"
    by (rule successively_nth)
  then show "maxChars < int (length (wrapText txt maxChars ! i))
                   + int (length (hd (splitOn CHR '' '' (wrapText txt maxChars ! Suc i)))) + 1"
    by (simp add: unfit_def hd_splitOn)
qed

lemma wrapText_example: "wrapText ''aa bb cccccc d'' 5 = [''aa bb'', ''cccccc'', ''d'']"
  by (simp add: wrapText_def wrapStep_def Let_def)

lemma splitOn_example: "splitOn CHR '' '' ''aa bb cccccc d'' = [''aa'', ''bb'', ''cccccc'', ''d'']"
  by simp

theorem wrapText_greedy_fill_witness:
  "wrapText ''aa bb cccccc d'' 5 = [''aa bb'', ''cccccc'', ''d'']
   \<and> splitOn CHR '' '' ''aa bb cccccc d'' = [''aa'', ''bb'', ''cccccc'', ''d'']
   \<and> ''cccccc'' \<noteq> [] \<and> (5::int) < int (length ''cccccc'')
   \<and> ''cccccc'' \<in> set (wrapText ''aa bb cccccc d'' 5)
   \<and> (5::int) < int (length ''aa bb'') + int (length ''cccccc'') + 1"
proof -
  note t = wrapText_greedy_fill [of 5 "''aa bb cccccc d''"]
  from t have "\<forall>w\<in>set (splitOn CHR '' '' ''aa bb cccccc d'').
        w \<noteq> [] \<and> 5 < int (length w) \<longrightarrow> w \<in> set (wrapText ''aa bb cccccc d'' 5)"
    by blast
  then have "''cccccc'' \<in> set (wrapText ''aa bb cccccc d'' 5)"
    by (simp add: splitOn_example)
  then show ?thesis
    by (simp add: wrapText_example)
qed

theorem wrapText_keeps_words_witness:
  "splitOn CHR '' '' ''aa bb cccccc d'' = [''aa'', ''bb'', ''cccccc'', ''d'']
   \<and> concat (map (splitOn CHR '' '') (wrapText ''aa bb cccccc d'' 5))
       = [''aa'', ''bb'', ''cccccc'', ''d'']"
  using wrapText_keeps_words [of "''aa bb cccccc d''" 5] by simp

section \<open>Properties of the categorization\<close>

lemma foldl_matchStep:
  "\<exists>n s. foldl (matchStep kws) (n0, s0) cs = (n, s)
     \<and> (((\<forall>c\<in>set cs. categoryScore kws (snd c) \<le> s0) \<and> n = n0 \<and> s = s0)
        \<or> (\<exists>i<length cs. n = fst (cs ! i) \<and> s = categoryScore kws (snd (cs ! i)) \<and> s0 < s
              \<and> (\<forall>j<length cs. categoryScore kws (snd (cs ! j)) \<le> s)
              \<and> (\<forall>j<i. categoryScore kws (snd (cs ! j)) < s)))"
proof (induction cs rule: rev_induct)
  case Nil
  then show ?case by simp
next
  case (snoc c cs)
  then obtain n s where fold: "foldl (matchStep kws) (n0, s0) cs = (n, s)"
    and inv: "((\<forall>c\<in>set cs. categoryScore kws (snd c) \<le> s0) \<and> n = n0 \<and> s = s0)
        \<or> (\<exists>i<length cs. n = fst (cs ! i) \<and> s = categoryScore kws (snd (cs ! i)) \<and> s0 < s
              \<and> (\<forall>j<length cs. categoryScore kws (snd (cs ! j)) \<le> s)
              \<and> (\<forall>j<i. categoryScore kws (snd (cs ! j)) < s))"
    by blast
  have s0s: "s0 \<le> s" using inv by auto
  have all_le: "\<forall>j<length cs. categoryScore kws (snd (cs ! j)) \<le> s"
    using inv by (auto simp: all_set_conv_all_nth)
  show ?case
  proof (cases "categoryScore kws (snd c) > s")
    case True
    then have "foldl (matchStep kws) (n0, s0) (cs @ [c]) = (fst c, categoryScore kws (snd c))"
      by (simp add: fold matchStep_def Let_def)
    moreover have "\<forall>j<length (cs @ [c]). categoryScore kws (snd ((cs @ [c]) ! j)) \<le> categoryScore kws (snd c)"
      using all_le True by (auto simp: nth_append less_Suc_eq)
    moreover have "\<forall>j<length cs. categoryScore kws (snd ((cs @ [c]) ! j)) < categoryScore kws (snd c)"
      using all_le True by (auto simp: nth_append)
    ultimately show ?thesis
      using True s0s
      by (intro exI [of _ "fst c"] exI [of _ "categoryScore kws (snd c)"] conjI disjI2
            exI [of _ "length cs"]) auto
  next
    case False
    then have f: "foldl (matchStep kws) (n0, s0) (cs @ [c]) = (n, s)"
      by (simp add: fold matchStep_def Let_def)
    from inv show ?thesis
    proof
      assume "(\<forall>c\<in>set cs. categoryScore kws (snd c) \<le> s0) \<and> n = n0 \<and> s = s0"
      with False f show ?thesis by auto
    next
      assume "\<exists>i<length cs. n = fst (cs ! i) \<and> s = categoryScore kws (snd (cs ! i)) \<and> s0 < s
              \<and> (\<forall>j<length cs. categoryScore kws (snd (cs ! j)) \<le> s)
              \<and> (\<forall>j<i. categoryScore kws (snd (cs ! j)) < s)"
      then obtain i where i: "i < length cs" "n = fst (cs ! i)"
        "s = categoryScore kws (snd (cs ! i))" "s0 < s"
        "\<forall>j<i. categoryScore kws (snd (cs ! j)) < s"
        by blast
      have "\<forall>j<length (cs @ [c]). categoryScore kws (snd ((cs @ [c]) ! j)) \<le> s"
        using all_le False by (auto simp: nth_append less_Suc_eq)
      moreover have "\<forall>j<i. categoryScore kws (snd ((cs @ [c]) ! j)) < s"
        using i by (auto simp: nth_append)
      ultimately show ?thesis
        using i f
        by (intro exI [of _ n] exI [of _ s] conjI disjI2 exI [of _ i]) (auto simp: nth_append)
    qed
  qed
qed

lemma categoryScore_card:
  "distinct ws \<Longrightarrow> categoryScore kws ws = card (set ws \<inter> toLowerCase ` set kws)"
proof -
  assume "distinct ws"
  then have "length (filter (\<lambda>w. w \<in> toLowerCase ` set kws) ws)
      = card ({w. w \<in> toLowerCase ` set kws} \<inter> set ws)"
    by (rule distinct_length_filter)
  also have "{w. w \<in> toLowerCase ` set kws} \<inter> set ws = set ws \<inter> toLowerCase ` set kws"
    by blast
  finally show ?thesis by (simp add: categoryScore_def)
qed

lemma categories_distinct: "\<forall>c\<in>set categories. distinct (snd c)"
  by (simp add: categories_def)

lemma categories_names:
  "map fst categories
     = [''technical'', ''business'', ''legal'', ''academic'', ''creative'', ''administrative'']"
  by (simp add: categories_def)

text \<open>
  Claim C8, as amended. The six categories are technical, business, legal, academic,
  creative and administrative, in this order. The score of a category is the number of its
  words that occur among the keywords after these are put in lower case. If every score is
  zero the result is \<open>general\<close>; otherwise it is the first category of the table whose score
  is the highest.
\<close>

theorem categorizeDocument_best_match:
  "map fst categories
     = [''technical'', ''business'', ''legal'', ''academic'', ''creative'', ''administrative'']
   \<and> (\<forall>c\<in>set categories.
         categoryScore kws (snd c) = card (set (snd c) \<inter> toLowerCase ` set kws))
   \<and> ((\<forall>c\<in>set categories. categoryScore kws (snd c) = 0)
        \<longrightarrow> categorizeDocument kws = ''general'')
   \<and> ((\<exists>c\<in>set categories. categoryScore kws (snd c) \<noteq> 0)
        \<longrightarrow> (\<exists>i<length categories.
               categorizeDocument kws = fst (categories ! i)
               \<and> 0 < categoryScore kws (snd (categories ! i))
               \<and> (\<forall>j<length categories.
                     categoryScore kws (snd (categories ! j))
                       \<le> categoryScore kws (snd (categories ! i)))
               \<and> (\<forall>j<i. categoryScore kws (snd (categories ! j))
                            < categoryScore kws (snd (categories ! i)))))"
proof -
  obtain n s where fold: "foldl (matchStep kws) (''general'', 0) categories = (n, s)"
    and inv: "((\<forall>c\<in>set categories. categoryScore kws (snd c) \<le> 0) \<and> n = ''general'' \<and> s = 0)
        \<or> (\<exists>i<length categories. n = fst (categories ! i)
              \<and> s = categoryScore kws (snd (categories ! i)) \<and> 0 < s
              \<and> (\<forall>j<length categories. categoryScore kws (snd (categories ! j)) \<le> s)
              \<and> (\<forall>j<i. categoryScore kws (snd (categories ! j)) < s))"
    using foldl_matchStep [of kws "''general''" 0 categories] by blast
  have res: "categorizeDocument kws = n"
    by (simp add: categorizeDocument_def fold)
  have zero: "(\<forall>c\<in>set categories. categoryScore kws (snd c) = 0)
        \<longrightarrow> categorizeDocument kws = ''general''"
  proof
    assume z: "\<forall>c\<in>set categories. categoryScore kws (snd c) = 0"
    have "\<not> (\<exists>i<length categories. 0 < categoryScore kws (snd (categories ! i)))"
      using z by (auto simp: all_set_conv_all_nth)
    with inv have "n = ''general''" by blast
    with res show "categorizeDocument kws = ''general''" by simp
  qed
  have pos: "(\<exists>c\<in>set categories. categoryScore kws (snd c) \<noteq> 0)
        \<longrightarrow> (\<exists>i<length categories.
               categorizeDocument kws = fst (categories ! i)
               \<and> 0 < categoryScore kws (snd (categories ! i))
               \<and> (\<forall>j<length categories.
                     categoryScore kws (snd (categories ! j))
                       \<le> categoryScore kws (snd (categories ! i)))
               \<and> (\<forall>j<i. categoryScore kws (snd (categories ! j))
                            < categoryScore kws (snd (categories ! i))))"
  proof
    assume "\<exists>c\<in>set categories. categoryScore kws (snd c) \<noteq> 0"
    then have "\<not> (\<forall>c\<in>set categories. categoryScore kws (snd c) \<le> 0)"
      by auto
    with inv obtain i where "i < length categories" "n = fst (categories ! i)"
      "s = categoryScore kws (snd (categories ! i))" "0 < s"
      "\<forall>j<length categories. categoryScore kws (snd (categories ! j)) \<le> s"
      "\<forall>j<i. categoryScore kws (snd (categories ! j)) < s"
      by blast
    with res show "\<exists>i<length categories.
               categorizeDocument kws = fst (categories ! i)
               \<and> 0 < categoryScore kws (snd (categories ! i))
               \<and> (\<forall>j<length categories.
                     categoryScore kws (snd (categories ! j))
                       \<le> categoryScore kws (snd (categories ! i)))
               \<and> (\<forall>j<i. categoryScore kws (snd (categories ! j))
                            < categoryScore kws (snd (categories ! i)))"
      by blast
  qed
  have score: "\<forall>c\<in>set categories.
         categoryScore kws (snd c) = card (set (snd c) \<inter> toLowerCase ` set kws)"
    using categories_distinct by (simp add: categoryScore_card)
  from categories_names score zero pos show ?thesis
    by (intro conjI)
qed

theorem categorizeDocument_best_match_witness:
  "categorizeDocument [''quantum'', ''banana''] = ''general''
   \<and> categoryScore [''code'', ''Sales'', ''market''] (snd (categories ! 0)) = 1
   \<and> categoryScore [''code'', ''Sales'', ''market''] (snd (categories ! 1)) = 2
   \<and> categorizeDocument [''code'', ''Sales'', ''market''] = ''business''
   \<and> categorizeDocument [''code'', ''Sales'', ''market''] \<in> set (map fst categories)"
proof -
  have z: "\<forall>c\<in>set categories. categoryScore [''quantum'', ''banana''] (snd c) = 0"
    by code_simp
  have general: "categorizeDocument [''quantum'', ''banana''] = ''general''"
    using categorizeDocument_best_match [of "[''quantum'', ''banana'']"] z by blast
  have s0: "categoryScore [''code'', ''Sales'', ''market''] (snd (categories ! 0)) = 1"
    by code_simp
  have s1: "categoryScore [''code'', ''Sales'', ''market''] (snd (categories ! 1)) = 2"
    by code_simp
  have business: "categorizeDocument [''code'', ''Sales'', ''market''] = ''business''"
    by code_simp
  have nz: "\<exists>c\<in>set categories. categoryScore [''code'', ''Sales'', ''market''] (snd c) \<noteq> 0"
    by code_simp
  with categorizeDocument_best_match [of "[''code'', ''Sales'', ''market'']"]
  obtain i where "i < length categories"
      "categorizeDocument [''code'', ''Sales'', ''market''] = fst (categories ! i)"
    by blast
  then have "categorizeDocument [''code'', ''Sales'', ''market''] \<in> set (map fst categories)"
    by simp
  with general business s0 s1 show ?thesis by simp
qed

text \<open>
  The keywords are compared in lower case: the keyword \<open>CODE\<close> is none of the words of any
  category, and still the document is technical, not general.
\<close>

theorem categorizeDocument_case_counterexample:
  "set [''CODE''] \<inter> set (concat (map snd categories)) = {}
   \<and> categorizeDocument [''CODE''] = ''technical''"
proof -
  have "set [''CODE''] \<inter> set (concat (map snd categories)) = {}"
    by (simp add: categories_def)
  moreover have "categorizeDocument [''CODE''] = ''technical''"
    by code_simp
  ultimately show ?thesis by simp
qed

section \<open>Properties of the keyword extraction\<close>

subsection \<open>assign\<close>

lemma assign_absent: "key \<notin> fst ` set obj \<Longrightarrow> assign key v obj = obj @ [(key, v)]"
  by (induction obj) auto

lemma map_fst_assign_present: "key \<in> fst ` set obj \<Longrightarrow> map fst (assign key v obj) = map fst obj"
  by (induction obj) force+

lemma map_of_assign: "map_of (assign key v obj) = (map_of obj)(key \<mapsto> v)"
  by (induction obj) (auto simp: fun_eq_iff)

subsection \<open>firstIndex\<close>

lemma firstIndex_append_in: "a \<in> set ws \<Longrightarrow> firstIndex (ws @ [w]) a = firstIndex ws a"
  by (simp add: firstIndex_def)

lemma firstIndex_less: "a \<in> set ws \<Longrightarrow> firstIndex ws a < length ws"
  unfolding firstIndex_def
  by (induction ws) auto

lemma firstIndex_append_new: "w \<notin> set ws \<Longrightarrow> firstIndex (ws @ [w]) w = length ws"
  unfolding firstIndex_def by (induction ws) auto

subsection \<open>The frequency object\<close>

lemma counted_map_of:
  assumes "counted ws obj" "w \<in> set ws"
  shows "map_of obj w = Some (Count (count_list ws w))"
proof -
  from assms have "w \<in> fst ` set obj"
    by (simp add: counted_def)
  then obtain v where v: "(w, v) \<in> set obj"
    by force
  with assms have "v = Count (count_list ws w)"
    by (force simp: counted_def)
  with v assms show ?thesis
    by (simp add: counted_def map_of_eq_Some_iff)
qed

lemma counted_step:
  assumes c: "counted ws obj" and w: "w \<noteq> ''constructor''"
  shows "counted (ws @ [w]) (countWord obj w)"
proof (cases "w \<in> set ws")
  case True
  then have mo: "map_of obj w = Some (Count (count_list ws w))"
    using c by (rule counted_map_of [rotated])
  have inobj: "w \<in> fst ` set obj"
    using c True by (auto simp: counted_def)
  have cw: "countWord obj w = assign w (Count (count_list ws w + 1)) obj"
    by (simp add: countWord_def mo)
  have keys: "map fst (countWord obj w) = map fst obj"
    by (simp add: cw map_fst_assign_present inobj)
  have vals: "\<forall>e\<in>set (countWord obj w). snd e = Count (count_list (ws @ [w]) (fst e))"
  proof
    fix e assume e: "e \<in> set (countWord obj w)"
    have d: "distinct (map fst (countWord obj w))"
      using c by (simp add: keys counted_def)
    from e d have "map_of (countWord obj w) (fst e) = Some (snd e)"
      by (simp add: map_of_eq_Some_iff)
    then have m: "((map_of obj)(w \<mapsto> Count (count_list ws w + 1))) (fst e) = Some (snd e)"
      by (simp add: cw map_of_assign)
    show "snd e = Count (count_list (ws @ [w]) (fst e))"
    proof (cases "fst e = w")
      case True
      with m show ?thesis by simp
    next
      case False
      with m have "map_of obj (fst e) = Some (snd e)" by simp
      then have "(fst e, snd e) \<in> set obj" by (rule map_of_SomeD)
      with c have "snd e = Count (count_list ws (fst e))"
        by (auto simp: counted_def)
      with False show ?thesis by simp
    qed
  qed
  have ord: "sorted_wrt (\<lambda>a b. firstIndex (ws @ [w]) a < firstIndex (ws @ [w]) b) (map fst obj)"
  proof -
    have "sorted_wrt (\<lambda>a b. firstIndex ws a < firstIndex ws b) (map fst obj)"
      using c by (simp add: counted_def)
    moreover have "set (map fst obj) = set ws"
      using c by (simp add: counted_def)
    ultimately show ?thesis
      by (rule_tac sorted_wrt_mono_rel [rotated]) (auto simp: firstIndex_append_in)
  qed
  show ?thesis
    using c True vals ord by (auto simp: counted_def keys)
next
  case False
  then have notin: "w \<notin> fst ` set obj"
    using c by (auto simp: counted_def)
  then have mo: "map_of obj w = None"
    by (simp add: map_of_eq_None_iff)
  have cw: "countWord obj w = obj @ [(w, Count 1)]"
    using w by (simp add: countWord_def mo assign_absent notin)
  have vals: "\<forall>e\<in>set obj. snd e = Count (count_list (ws @ [w]) (fst e))"
  proof
    fix e assume e: "e \<in> set obj"
    with c have "snd e = Count (count_list ws (fst e))" "fst e \<in> set ws"
      by (auto simp: counted_def)
    with False show "snd e = Count (count_list (ws @ [w]) (fst e))"
      by auto
  qed
  have ord: "sorted_wrt (\<lambda>a b. firstIndex (ws @ [w]) a < firstIndex (ws @ [w]) b) (map fst obj)"
  proof -
    have "sorted_wrt (\<lambda>a b. firstIndex ws a < firstIndex ws b) (map fst obj)"
      using c by (simp add: counted_def)
    moreover have "set (map fst obj) = set ws"
      using c by (simp add: counted_def)
    ultimately show ?thesis
      by (rule_tac sorted_wrt_mono_rel [rotated]) (auto simp: firstIndex_append_in)
  qed
  have last: "\<forall>a\<in>set (map fst obj). firstIndex (ws @ [w]) a < firstIndex (ws @ [w]) w"
    using c False by (auto simp: counted_def firstIndex_append_in firstIndex_append_new firstIndex_less)
  show ?thesis
    using c False vals ord last
    by (auto simp: counted_def cw sorted_wrt_append count_list_0_iff)
qed

lemma counted_foldl:
  "''constructor'' \<notin> set ws \<Longrightarrow> counted ws (foldl countWord [] ws)"
proof (induction ws rule: rev_induct)
  case Nil
  then show ?case by (simp add: counted_def)
next
  case (snoc w ws)
  then have "counted ws (foldl countWord [] ws)" "w \<noteq> ''constructor''"
    by auto
  then have "counted (ws @ [w]) (countWord (foldl countWord [] ws) w)"
    by (rule counted_step)
  then show ?case by simp
qed

subsection \<open>The stable sort\<close>

lemma insort_key_ranked:
  assumes "sorted_wrt (\<lambda>a b. f a < f b \<or> (f a = f b \<and> B a b)) ys"
    and "sorted (map f ys)" and "\<forall>y\<in>set ys. B x y"
  shows "sorted_wrt (\<lambda>a b. f a < f b \<or> (f a = f b \<and> B a b)) (insort_key f x ys)"
  using assms
proof (induction ys)
  case Nil
  then show ?case by simp
next
  case (Cons y ys)
  show ?case
  proof (cases "f x \<le> f y")
    case True
    with Cons.prems show ?thesis
      by (auto simp: le_less)
  next
    case False
    with Cons.prems Cons.IH show ?thesis
      by (auto simp: set_insort_key)
  qed
qed

lemma sort_key_ranked:
  fixes f :: "'a \<Rightarrow> int"
  assumes "sorted_wrt B xs"
  shows "sorted_wrt (\<lambda>a b. f a < f b \<or> (f a = f b \<and> B a b)) (sort_key f xs)"
  using assms
proof (induction xs)
  case Nil
  then show ?case by simp
next
  case (Cons x xs)
  then have "sorted_wrt (\<lambda>a b. f a < f b \<or> (f a = f b \<and> B a b)) (sort_key f xs)"
    and "\<forall>y\<in>set (sort_key f xs). B x y"
    by simp_all
  then have "sorted_wrt (\<lambda>a b. f a < f b \<or> (f a = f b \<and> B a b))
               (insort_key f x (sort_key f xs))"
    by (intro insort_key_ranked) simp_all
  then show ?case by (simp add: sort_key_simps)
qed

subsection \<open>Array indices\<close>

lemma charCode_inj: "charCode c = charCode d \<Longrightarrow> c = d"
  by (simp add: charCode_def)

lemma decimalValue_snoc:
  "decimalValue (s @ [c]) = 10 * decimalValue s + (int (charCode c) - 48)"
  by (simp add: decimalValue_def)

lemma digit_range: "isDigit c \<Longrightarrow> 0 \<le> int (charCode c) - 48 \<and> int (charCode c) - 48 \<le> 9"
  by (auto simp: isDigit_def)

lemma decimalValue_nonneg: "list_all isDigit s \<Longrightarrow> 0 \<le> decimalValue s"
proof (induction s rule: rev_induct)
  case Nil
  then show ?case by (simp add: decimalValue_def)
next
  case (snoc c s)
  then have "0 \<le> decimalValue s" "0 \<le> int (charCode c) - 48"
    using digit_range [of c] by simp_all
  then show ?case by (simp add: decimalValue_snoc)
qed

lemma decimalValue_pos:
  assumes "list_all isDigit s" "s \<noteq> []" "hd s \<noteq> CHR ''0''"
  shows "0 < decimalValue s"
  using assms
proof (induction s rule: rev_induct)
  case Nil
  then show ?case by simp
next
  case (snoc c s)
  show ?case
  proof (cases "s = []")
    case True
    with snoc.prems have "isDigit c" "c \<noteq> CHR ''0''" by simp_all
    then have "charCode c \<noteq> 48"
      using charCode_inj [of c "CHR ''0''"] by (auto simp: charCode_def)
    with \<open>isDigit c\<close> have "0 < int (charCode c) - 48"
      by (auto simp: isDigit_def)
    with True show ?thesis by (simp add: decimalValue_def)
  next
    case False
    with snoc have "0 < decimalValue s" by simp
    moreover have "0 \<le> int (charCode c) - 48"
      using snoc.prems digit_range [of c] by simp
    ultimately show ?thesis by (simp add: decimalValue_snoc)
  qed
qed

lemma decimalValue_inj_aux:
  assumes "list_all isDigit a" "a = [] \<or> hd a \<noteq> CHR ''0''"
    and "list_all isDigit b" "b = [] \<or> hd b \<noteq> CHR ''0''"
    and "decimalValue a = decimalValue b"
  shows "a = b"
  using assms
proof (induction a arbitrary: b rule: rev_induct)
  case Nil
  show ?case
  proof (rule ccontr)
    assume "[] \<noteq> b"
    with Nil have "0 < decimalValue b"
      by (intro decimalValue_pos) auto
    with Nil show False by (simp add: decimalValue_def)
  qed
next
  case (snoc c a)
  have pos: "0 < decimalValue (a @ [c])"
    using snoc.prems by (intro decimalValue_pos) auto
  have "b \<noteq> []"
  proof
    assume "b = []"
    with pos snoc.prems show False by (simp add: decimalValue_def)
  qed
  then obtain b' d where b: "b = b' @ [d]"
    by (cases b rule: rev_cases) auto
  have dc: "0 \<le> int (charCode c) - 48 \<and> int (charCode c) - 48 \<le> 9"
    using snoc.prems digit_range [of c] by simp
  have dd: "0 \<le> int (charCode d) - 48 \<and> int (charCode d) - 48 \<le> 9"
    using snoc.prems digit_range [of d] by (simp add: b)
  have eq: "10 * decimalValue a + (int (charCode c) - 48)
          = 10 * decimalValue b' + (int (charCode d) - 48)"
    using snoc.prems by (simp add: b decimalValue_snoc)
  with dc dd have same: "decimalValue a = decimalValue b'" "charCode c = charCode d"
    by presburger+
  have "a = b'"
  proof (rule snoc.IH)
    show "list_all isDigit a" using snoc.prems by simp
    show "a = [] \<or> hd a \<noteq> CHR ''0''" using snoc.prems by (cases a) auto
    show "list_all isDigit b'" using snoc.prems by (simp add: b)
    show "b' = [] \<or> hd b' \<noteq> CHR ''0''" using snoc.prems by (cases b') (auto simp: b)
    show "decimalValue a = decimalValue b'" by (rule same)
  qed
  with same b show ?case by (simp add: charCode_inj)
qed

lemma decimalValue_zero: "decimalValue ''0'' = 0"
  by (simp add: decimalValue_def charCode_def)

lemma arrayIndex_inj:
  assumes "arrayIndex a = Some i" "arrayIndex b = Some i"
  shows "a = b"
proof -
  from assms have a: "a \<noteq> []" "list_all isDigit a" "a = ''0'' \<or> hd a \<noteq> CHR ''0''"
    and b: "b \<noteq> []" "list_all isDigit b" "b = ''0'' \<or> hd b \<noteq> CHR ''0''"
    and v: "decimalValue a = decimalValue b"
    by (auto simp: arrayIndex_def split: if_splits)
  show ?thesis
  proof (cases "a = ''0''")
    case a0: True
    show ?thesis
    proof (cases "b = ''0''")
      case True
      with a0 show ?thesis by simp
    next
      case False
      with b have "0 < decimalValue b" by (intro decimalValue_pos) auto
      with v a0 show ?thesis by (simp add: decimalValue_zero)
    qed
  next
    case an: False
    with a have pa: "0 < decimalValue a" by (intro decimalValue_pos) auto
    show ?thesis
    proof (cases "b = ''0''")
      case True
      with v pa show ?thesis by (simp add: decimalValue_zero)
    next
      case False
      with an a b v show ?thesis
        by (intro decimalValue_inj_aux) auto
    qed
  qed
qed

subsection \<open>Object.entries\<close>

lemma set_entries: "set (entries obj) = set obj"
  by (auto simp: entries_def)

lemma distinct_entries: "distinct obj \<Longrightarrow> distinct (entries obj)"
  by (auto simp: entries_def)

lemma entries_order:
  assumes "sorted_wrt (\<lambda>a b. firstIndex toks a < firstIndex toks b) (map fst obj)"
    and "distinct (map fst obj)"
  shows "sorted_wrt (\<lambda>e e'. enumBefore toks (fst e) (fst e')) (entries obj)"
proof -
  let ?idx = "\<lambda>e :: string \<times> 'a. the (arrayIndex (fst e))"
  let ?I = "filter (\<lambda>e. arrayIndex (fst e) \<noteq> None) obj"
  let ?A = "sort_key ?idx ?I"
  let ?B = "filter (\<lambda>e. arrayIndex (fst e) = None) obj"
  have e: "entries obj = ?A @ ?B"
    by (simp add: entries_def case_prod_unfold)
  have dobj: "distinct obj" and inj: "inj_on fst (set obj)"
    using assms(2) by (simp_all add: distinct_map)
  have "inj_on ?idx (set ?I)"
  proof (rule inj_onI)
    fix x y
    assume x: "x \<in> set ?I" and y: "y \<in> set ?I" and eq: "?idx x = ?idx y"
    then obtain i where "arrayIndex (fst x) = Some i" "arrayIndex (fst y) = Some i"
      by auto
    then have "fst x = fst y"
      by (rule arrayIndex_inj)
    with inj x y show "x = y"
      by (auto dest: inj_onD)
  qed
  with dobj have "distinct (map ?idx ?A)"
    by (simp add: distinct_map)
  moreover have "sorted (map ?idx ?A)"
    by (rule sorted_sort_key)
  ultimately have "sorted_wrt (<) (map ?idx ?A)"
    by (simp add: strict_sorted_iff)
  then have "sorted_wrt (\<lambda>e e'. ?idx e < ?idx e') ?A"
    by (simp add: sorted_wrt_map)
  then have a: "sorted_wrt (\<lambda>e e'. enumBefore toks (fst e) (fst e')) ?A"
    by (rule sorted_wrt_mono_rel [rotated]) (auto simp: enumBefore_def)
  have "sorted_wrt (\<lambda>e e'. firstIndex toks (fst e) < firstIndex toks (fst e')) obj"
    using assms(1) by (simp add: sorted_wrt_map)
  then have "sorted_wrt (\<lambda>e e'. firstIndex toks (fst e) < firstIndex toks (fst e')) ?B"
    by (rule sorted_wrt_filter)
  then have b: "sorted_wrt (\<lambda>e e'. enumBefore toks (fst e) (fst e')) ?B"
    by (rule sorted_wrt_mono_rel [rotated]) (auto simp: enumBefore_def)
  have ab: "\<forall>x\<in>set ?A. \<forall>y\<in>set ?B. enumBefore toks (fst x) (fst y)"
    by (auto simp: enumBefore_def)
  from a b ab show ?thesis
    unfolding e sorted_wrt_append by blast
qed

subsection \<open>extractKeywords\<close>

lemma extractKeywords_ranked:
  assumes nc: "''constructor'' \<notin> set (tokenize text)" and k: "0 \<le> maxKeywords"
  shows "\<exists>ranking.
           extractKeywords text maxKeywords = Some (take (nat maxKeywords) ranking)
           \<and> distinct ranking \<and> set ranking = set (tokenize text)
           \<and> sorted_wrt (ranksBefore (tokenize text)) ranking"
proof -
  define toks where "toks = tokenize text"
  define obj where "obj = foldl countWord [] toks"
  define E where "E = entries obj"
  define key where "key = (\<lambda>e :: string \<times> tally. case snd e of Count n \<Rightarrow> - int n | Junk \<Rightarrow> 0)"
  define S where "S = sort_key key E"
  have c: "counted toks obj"
    using nc unfolding obj_def toks_def by (rule counted_foldl)
  have setE: "set E = set obj"
    by (simp add: E_def set_entries)
  have vals: "\<forall>e\<in>set E. snd e = Count (count_list toks (fst e))"
    using c by (simp add: setE counted_def)
  then have nojunk: "list_all (\<lambda>e. snd e \<noteq> Junk) E"
    by (auto simp: list_all_iff)
  have sorted: "sortEntries E = Some S"
    using nojunk by (simp add: sortEntries_def S_def key_def)
  have res: "extractKeywords text maxKeywords = Some (take (nat maxKeywords) (map fst S))"
    using k sorted
    by (simp add: extractKeywords_def Let_def slice0_def take_map
        toks_def [symmetric] obj_def [symmetric] E_def [symmetric])
  have dobj: "distinct (map fst obj)"
    using c by (simp add: counted_def)
  then have "distinct obj \<and> inj_on fst (set obj)"
    by (simp add: distinct_map)
  then have "distinct E \<and> inj_on fst (set E)"
    by (simp add: E_def distinct_entries set_entries)
  then have d: "distinct (map fst S)"
    by (simp add: S_def distinct_map)
  have st: "set (map fst S) = set toks"
    using c by (simp add: S_def setE counted_def)
  have "sorted_wrt (\<lambda>e e'. enumBefore toks (fst e) (fst e')) E"
    unfolding E_def using c by (intro entries_order) (simp_all add: counted_def)
  then have "sorted_wrt (\<lambda>a b. key a < key b \<or> (key a = key b \<and> enumBefore toks (fst a) (fst b))) S"
    unfolding S_def by (rule sort_key_ranked)
  then have "sorted_wrt (\<lambda>a b. ranksBefore toks (fst a) (fst b)) S"
  proof (rule sorted_wrt_mono_rel [rotated])
    fix a b
    assume "a \<in> set S" "b \<in> set S"
    then have "key a = - int (count_list toks (fst a))" "key b = - int (count_list toks (fst b))"
      using vals by (simp_all add: S_def key_def)
    moreover assume "key a < key b \<or> (key a = key b \<and> enumBefore toks (fst a) (fst b))"
    ultimately show "ranksBefore toks (fst a) (fst b)"
      by (auto simp: ranksBefore_def)
  qed
  then have r: "sorted_wrt (ranksBefore toks) (map fst S)"
    by (simp add: sorted_wrt_map)
  from res d st r show ?thesis
    unfolding toks_def by blast
qed

lemma extractKeywords_example:
  "extractKeywords ''apple apple banana banana banana cherry'' 10
     = Some [''banana'', ''apple'', ''cherry'']"
  by code_simp

text \<open>
  Claim C7, as amended. For a text without the token \<open>constructor\<close> and a bound
  \<open>maxKeywords\<close> that is not negative, the keywords are the first \<open>maxKeywords\<close> entries of
  the ranking of the distinct tokens by descending frequency, where tokens of equal
  frequency stand in the enumeration order of the frequency object: the tokens that are
  array indices first, in ascending numeric order, then the other tokens in the order in
  which they are first seen. On the text of the example the keywords are banana, apple,
  cherry.
\<close>

theorem extractKeywords_ranking:
  assumes "''constructor'' \<notin> set (tokenize text)" and "0 \<le> maxKeywords"
  shows "(\<exists>ranking.
           extractKeywords text maxKeywords = Some (take (nat maxKeywords) ranking)
           \<and> distinct ranking \<and> set ranking = set (tokenize text)
           \<and> sorted_wrt (ranksBefore (tokenize text)) ranking)
    \<and> extractKeywords ''apple apple banana banana banana cherry'' 10
         = Some [''banana'', ''apple'', ''cherry'']"
  using extractKeywords_ranked [OF assms] extractKeywords_example by blast

theorem extractKeywords_ranking_witness:
  "''constructor'' \<notin> set (tokenize ''zeta 2024 alpha zeta 1999'')
   \<and> extractKeywords ''zeta 2024 alpha zeta 1999'' 2 = Some [''zeta'', ''1999'']
   \<and> extractKeywords ''apple apple banana banana banana cherry'' 10
       = Some [''banana'', ''apple'', ''cherry'']"
proof -
  have h: "''constructor'' \<notin> set (tokenize ''zeta 2024 alpha zeta 1999'')"
    by code_simp
  have k: "(0::int) \<le> 2" by simp
  have e: "extractKeywords ''zeta 2024 alpha zeta 1999'' 2 = Some [''zeta'', ''1999'']"
    by code_simp
  from extractKeywords_ranking [OF h k] h e show ?thesis
    by blast
qed

text \<open>
  In \<open>zeta 2024\<close> both tokens occur once and \<open>zeta\<close> is seen first, but \<open>2024\<close> is an array
  index and is enumerated first.
\<close>

theorem extractKeywords_tie_counterexample:
  "tokenize ''zeta 2024'' = [''zeta'', ''2024'']
   \<and> extractKeywords ''zeta 2024'' 10 = Some [''2024'', ''zeta'']"
proof -
  have "tokenize ''zeta 2024'' = [''zeta'', ''2024'']"
    by code_simp
  moreover have "extractKeywords ''zeta 2024'' 10 = Some [''2024'', ''zeta'']"
    by code_simp
  ultimately show ?thesis by simp
qed

text \<open>
  The token \<open>constructor\<close> is not counted: \<open>frequency.constructor\<close> is inherited from
  \<open>Object.prototype\<close>, so the entry never holds a number. Here \<open>apple\<close> occurs twice and
  \<open>constructor\<close> once, and \<open>constructor\<close> is ranked first.
\<close>

lemma extractKeywords_constructor:
  "extractKeywords ''constructor apple apple'' 10 = Some [''constructor'', ''apple'']"
  by code_simp

section \<open>Properties of the analyze route\<close>

lemma generateReading_total: "\<exists>r. generateReading ttl kws cat txtArg = Some r \<and> length (cards r) = 3"
  by (simp add: generateReading_eq)

lemma generateReading_fields:
  assumes "generateReading ttl kws cat txtArg = Some r"
  shows "title r = ttl" "keywords' r = kws" "category r = cat"
  using assms by (auto simp: generateReading_eq)

lemma readingSeed_prefix:
  "take 500 a = take 500 b \<Longrightarrow> readingSeed a ttl = readingSeed b ttl"
  by (simp add: readingSeed_def)

lemma generateReading_prefix:
  assumes "take 500 a = take 500 b"
    and "generateReading ttl ka ca a = Some ra" and "generateReading ttl kb cb b = Some rb"
  shows "aura ra = aura rb \<and> certification ra = certification rb \<and> cards ra = cards rb"
proof -
  have s: "readingSeed a ttl = readingSeed b ttl"
    using assms(1) by (rule readingSeed_prefix)
  from assms(2) have "ra = \<lparr>title = ttl, keywords' = ka, category = ca,
           aura = name (AURAS ! nat ((readingSeed b ttl + 3) mod 10)),
           certification = CERTIFICATIONS ! nat ((readingSeed b ttl + 4) mod 10),
           cards = [drawn ''past'' (CARD_DECKS_past ! nat (readingSeed b ttl mod 8)),
                    drawn ''present'' (CARD_DECKS_present ! nat ((readingSeed b ttl + 1) mod 8)),
                    drawn ''future'' (CARD_DECKS_future ! nat ((readingSeed b ttl + 2) mod 8))]\<rparr>"
    unfolding generateReading_eq s by simp
  moreover from assms(3) have "rb = \<lparr>title = ttl, keywords' = kb, category = cb,
           aura = name (AURAS ! nat ((readingSeed b ttl + 3) mod 10)),
           certification = CERTIFICATIONS ! nat ((readingSeed b ttl + 4) mod 10),
           cards = [drawn ''past'' (CARD_DECKS_past ! nat (readingSeed b ttl mod 8)),
                    drawn ''present'' (CARD_DECKS_present ! nat ((readingSeed b ttl + 1) mod 8)),
                    drawn ''future'' (CARD_DECKS_future ! nat ((readingSeed b ttl + 2) mod 8))]\<rparr>"
    unfolding generateReading_eq by simp
  ultimately show ?thesis by simp
qed

lemma analyzeRoute_Sent:
  assumes ex: "extractText pdfParse buf = Some ex"
    and len: "10 \<le> length (extractedText ex)"
  shows "\<exists>r. generateReading (extractedTitle ex) (routeKeywords engineSort (extractedText ex))
          (categorizeDocument (routeKeywords engineSort (extractedText ex))) (extractedText ex)
          = Some r
     \<and> analyzeRoute engineSort pdfParse (Some buf) = Sent r"
proof -
  obtain r where r: "generateReading (extractedTitle ex)
      (routeKeywords engineSort (extractedText ex))
      (categorizeDocument (routeKeywords engineSort (extractedText ex))) (extractedText ex) = Some r"
      "length (cards r) = 3"
    using generateReading_total by blast
  have "analyzeRoute engineSort pdfParse (Some buf) = Sent r"
    using ex len r by (simp add: analyzeRoute_def Let_def)
  with r show ?thesis by blast
qed

text \<open>
  Claim C1, as amended. Take two uploads whose extraction succeeds and gives the same title
  and texts with the same first 500 characters, the texts being at least 10 characters
  long. Then both are answered with a reading, whatever order the engine gives to entries
  that it cannot compare, and the two readings have the same title, aura, certification
  and cards. Their keywords are those of the whole extracted text of each, and their
  category is that of these keywords.
\<close>

theorem reading_depends_on_title_and_prefix:
  assumes "extractText pdfParse bufA = Some exA" and "extractText pdfParse bufB = Some exB"
    and "extractedTitle exA = extractedTitle exB"
    and "take 500 (extractedText exA) = take 500 (extractedText exB)"
    and "10 \<le> length (extractedText exA)"
  shows "\<exists>ra rb.
      analyzeRoute engineSort pdfParse (Some bufA) = Sent ra
      \<and> analyzeRoute engineSort pdfParse (Some bufB) = Sent rb
      \<and> title ra = title rb \<and> aura ra = aura rb \<and> certification ra = certification rb
      \<and> cards ra = cards rb
      \<and> keywords' ra = routeKeywords engineSort (extractedText exA)
      \<and> keywords' rb = routeKeywords engineSort (extractedText exB)
      \<and> category ra = categorizeDocument (keywords' ra)
      \<and> category rb = categorizeDocument (keywords' rb)"
proof -
  have "length (take 500 (extractedText exB)) = length (take 500 (extractedText exA))"
    using assms(4) by simp
  with assms(5) have lenB: "10 \<le> length (extractedText exB)"
    by simp
  from analyzeRoute_Sent [OF assms(1,5), of engineSort] obtain ra
    where a: "generateReading (extractedTitle exA) (routeKeywords engineSort (extractedText exA))
        (categorizeDocument (routeKeywords engineSort (extractedText exA))) (extractedText exA)
        = Some ra"
      "analyzeRoute engineSort pdfParse (Some bufA) = Sent ra"
    by blast
  from analyzeRoute_Sent [OF assms(2) lenB, of engineSort] obtain rb
    where b: "generateReading (extractedTitle exB) (routeKeywords engineSort (extractedText exB))
        (categorizeDocument (routeKeywords engineSort (extractedText exB))) (extractedText exB)
        = Some rb"
      "analyzeRoute engineSort pdfParse (Some bufB) = Sent rb"
    by blast
  note fa = generateReading_fields [OF a(1)] and fb = generateReading_fields [OF b(1)]
  have same: "aura ra = aura rb \<and> certification ra = certification rb \<and> cards ra = cards rb"
    using assms(4) a(1) b(1) [folded assms(3)] by (rule generateReading_prefix)
  have "title ra = title rb"
    using fa(1) fb(1) assms(3) by simp
  moreover have "keywords' ra = routeKeywords engineSort (extractedText exA)"
    "keywords' rb = routeKeywords engineSort (extractedText exB)"
    using fa(2) fb(2) by simp_all
  moreover have "category ra = categorizeDocument (keywords' ra)"
    "category rb = categorizeDocument (keywords' rb)"
    using fa(2,3) fb(2,3) by simp_all
  ultimately show ?thesis
    using a(2) b(2) same by blast
qed

subsection \<open>The sample documents\<close>

lemma trim_id: "s \<noteq> [] \<Longrightarrow> \<not> isSpace (hd s) \<Longrightarrow> \<not> isSpace (last s) \<Longrightarrow> trim s = s"
proof -
  assume s: "s \<noteq> []" and h: "\<not> isSpace (hd s)" and l: "\<not> isSpace (last s)"
  from s h have "dropWhile isSpace s = s"
    by (cases s) auto
  moreover from s l have "dropWhile isSpace (rev s) = rev s"
    by (cases "rev s") (auto simp: last_rev [symmetric] simp del: last_rev)
  ultimately show ?thesis
    by (simp add: trim_def)
qed

lemma filter_splitWs_dropWhile:
  "filter (\<lambda>w. length w > 3 \<and> Q w) (splitWs (dropWhile isSpace r))
     = filter (\<lambda>w. length w > 3 \<and> Q w) (splitWs r)"
  by (cases r) auto

lemma tokenize_hyphen: "tokenize (CHR ''-'' # s) = tokenize s"
proof -
  have g: "\<not> isLowerAZ (toLowerChar CHR ''-'')" "\<not> isDigit (toLowerChar CHR ''-'')"
    "\<not> isSpace (toLowerChar CHR ''-'')" "isSpace CHR '' ''"
    by (simp_all add: toLowerChar_def isLowerAZ_def isDigit_def isSpace_def isUpperAZ_def
        charCode_def)
  show ?thesis
    unfolding tokenize_def toLowerCase_def
    by (simp add: g filter_splitWs_dropWhile)
qed

lemma tokenize_hyphens: "tokenize (replicate n CHR ''-'' @ s) = tokenize s"
  by (induction n) (simp_all add: tokenize_hyphen)

lemma extractKeywords_cong:
  "tokenize a = tokenize b \<Longrightarrow> extractKeywords a k = extractKeywords b k"
  by (simp add: extractKeywords_def)

lemma sample_seed: "hashCode (replicate 500 CHR ''-'' @ ''Report'') = 92538772"
  unfolding hashCode_polyHash polyHash_def
  by (simp add: eval_nat_numeral polyStep_def toInt32_def)

lemma sample_extract:
  assumes "\<not> isSpace (last rest)" "rest \<noteq> []" "length rest \<le> 2500"
  shows "extractText Some \<lparr>dataText = replicate 500 CHR ''-'' @ rest,
                           infoTitle = Some ''Report'', numpages = n\<rparr>
    = Some \<lparr>extractedText = replicate 500 CHR ''-'' @ rest, numPages = n,
            extractedTitle = ''Report''\<rparr>"
proof -
  have c: "cleanTitle ''Report'' = ''Report''"
    by code_simp
  have h: "\<not> isSpace CHR ''-''"
    by (simp add: isSpace_def charCode_def)
  have "hd (replicate 500 CHR ''-'' @ rest) = CHR ''-''"
    by (simp add: hd_append)
  with assms h have "trim (replicate 500 CHR ''-'' @ rest) = replicate 500 CHR ''-'' @ rest"
    by (intro trim_id) simp_all
  with assms(3) show ?thesis
    by (simp add: extractText_def MAX_TEXT_LENGTH_def c Let_def)
qed

lemma sample_analyze:
  assumes "\<not> isSpace (last rest)" "rest \<noteq> []" "length rest \<le> 2500"
    and "extractKeywords rest 10 = Some kws"
  shows "analyzeRoute engineSort Some (Some \<lparr>dataText = replicate 500 CHR ''-'' @ rest,
                                  infoTitle = Some ''Report'', numpages = n\<rparr>)
    = Sent (sampleReading kws (categorizeDocument kws))"
proof -
  have "extractKeywords (replicate 500 CHR ''-'' @ rest) 10 = Some kws"
    using assms(4) extractKeywords_cong [OF tokenize_hyphens [of 500 rest], of 10] by simp
  then have k: "routeKeywords engineSort (replicate 500 CHR ''-'' @ rest) = kws"
    by (simp add: routeKeywords_def)
  have s: "readingSeed (replicate 500 CHR ''-'' @ rest) ''Report'' = 92538772"
    by (simp add: readingSeed_def sample_seed)
  have a: "name (AURAS ! 5) = ''Approval Seeker''" and c: "CERTIFICATIONS ! 6 = ''Carefully Cluttered''"
    by (simp_all add: AURAS_def CERTIFICATIONS_def)
  have g: "generateReading ''Report'' kws (categorizeDocument kws) (replicate 500 CHR ''-'' @ rest)
      = Some (sampleReading kws (categorizeDocument kws))"
    unfolding generateReading_eq s sampleReading_def
    using a c by simp
  have l: "length (cards (sampleReading kws (categorizeDocument kws))) = 3"
    by (simp add: sampleReading_def)
  show ?thesis
    by (simp add: analyzeRoute_def sample_extract [OF assms(1-3)] k g l Let_def)
qed

lemma sampleA_analyze:
  "analyzeRoute engineSort Some (Some sampleA) = Sent (sampleReading [''software''] ''technical'')"
proof -
  have "extractKeywords '' software software'' 10 = Some [''software'']"
    by code_simp
  moreover have "\<not> isSpace (last '' software software'')"
    by (simp add: isSpace_def charCode_def)
  moreover have "categorizeDocument [''software''] = ''technical''"
    by code_simp
  ultimately show ?thesis
    using sample_analyze [of "'' software software''" "[''software'']" engineSort]
    by (simp add: sampleA_def)
qed

lemma sampleB_analyze:
  "analyzeRoute engineSort Some (Some sampleB) = Sent (sampleReading [''contract''] ''legal'')"
proof -
  have "extractKeywords '' contract contract'' 10 = Some [''contract'']"
    by code_simp
  moreover have "\<not> isSpace (last '' contract contract'')"
    by (simp add: isSpace_def charCode_def)
  moreover have "categorizeDocument [''contract''] = ''legal''"
    by code_simp
  ultimately show ?thesis
    using sample_analyze [of "'' contract contract''" "[''contract'']" engineSort]
    by (simp add: sampleB_def)
qed

lemma sampleA_extract:
  "extractText Some sampleA
     = Some \<lparr>extractedText = dataText sampleA, numPages = 1, extractedTitle = ''Report''\<rparr>"
  unfolding sampleA_def
  by (simp add: sample_extract isSpace_def charCode_def)

lemma sampleB_extract:
  "extractText Some sampleB
     = Some \<lparr>extractedText = dataText sampleB, numPages = 1, extractedTitle = ''Report''\<rparr>"
  unfolding sampleB_def
  by (simp add: sample_extract isSpace_def charCode_def)

lemma sample_prefix: "take 500 (dataText sampleA) = take 500 (dataText sampleB)"
  by (simp add: sampleA_def sampleB_def)

theorem reading_depends_on_title_and_prefix_witness:
  "analyzeRoute id Some (Some sampleA) = Sent (sampleReading [''software''] ''technical'')
   \<and> analyzeRoute id Some (Some sampleB) = Sent (sampleReading [''contract''] ''legal'')
   \<and> cards (sampleReading [''software''] ''technical'') = cards (sampleReading [''contract''] ''legal'')
   \<and> aura (sampleReading [''software''] ''technical'') = aura (sampleReading [''contract''] ''legal'')
   \<and> certification (sampleReading [''software''] ''technical'')
       = certification (sampleReading [''contract''] ''legal'')"
proof -
  have len: "10 \<le> length (extractedText
      \<lparr>extractedText = dataText sampleA, numPages = 1, extractedTitle = ''Report''\<rparr>)"
    by (simp add: sampleA_def)
  from reading_depends_on_title_and_prefix [OF sampleA_extract sampleB_extract _ _ len, of id]
  obtain ra rb where "analyzeRoute id Some (Some sampleA) = Sent ra"
    "analyzeRoute id Some (Some sampleB) = Sent rb"
    "aura ra = aura rb" "certification ra = certification rb" "cards ra = cards rb"
    using sample_prefix by auto
  then show ?thesis
    by (simp add: sampleA_analyze sampleB_analyze)
qed

text \<open>
  The two sample documents have the same title and the same first 500 characters of
  text, and their readings differ in the keywords and the category. Neither text has the
  token \<open>constructor\<close>, so the sort of the engine, here the identity, is not consulted.
\<close>

theorem reading_keywords_counterexample:
  "extractText Some sampleA
     = Some \<lparr>extractedText = dataText sampleA, numPages = 1, extractedTitle = ''Report''\<rparr>
   \<and> extractText Some sampleB
     = Some \<lparr>extractedText = dataText sampleB, numPages = 1, extractedTitle = ''Report''\<rparr>
   \<and> take 500 (dataText sampleA) = take 500 (dataText sampleB)
   \<and> analyzeRoute id Some (Some sampleA) = Sent (sampleReading [''software''] ''technical'')
   \<and> analyzeRoute id Some (Some sampleB) = Sent (sampleReading [''contract''] ''legal'')
   \<and> sampleReading [''software''] ''technical'' \<noteq> sampleReading [''contract''] ''legal''"
proof -
  have "sampleReading [''software''] ''technical'' \<noteq> sampleReading [''contract''] ''legal''"
    by (simp add: sampleReading_def)
  with sampleA_extract sampleB_extract sample_prefix
    sampleA_analyze [of id] sampleB_analyze [of id]
  show ?thesis by simp
qed

section \<open>Properties of the render handler\<close>

lemma sample_drawings:
  "those (coverDrawings sampleLib sampleAnalysis)
     = Some [Rectangle, Text HelveticaBold 28 ''PDF TAROT READING'', Rectangle,
         Text Helvetica 14 ''Report'',
         Rectangle, Text HelveticaBold 10 ''PAST'', Text HelveticaBold 12 ''The Procrastinator'',
         Text Helvetica 8 ''It has known neglect,'', Text Helvetica 8 ''yet persevered.'',
         Rectangle, Text HelveticaBold 10 ''PRESENT'', Text HelveticaBold 12 ''The Procrastinator'',
         Text Helvetica 8 ''It has known neglect,'', Text Helvetica 8 ''yet persevered.'',
         Rectangle, Text HelveticaBold 10 ''FUTURE'', Text HelveticaBold 12 ''The Procrastinator'',
         Text Helvetica 8 ''It has known neglect,'', Text Helvetica 8 ''yet persevered.'',
         Rectangle, Text HelveticaBold 14 ''AURA: Focus Goblin'',
         Rectangle, Rectangle, Text HelveticaBold 12 ''Certified Chaotic Neutral'',
         Text Helvetica 10 ''pdftarot.app'']"
  by code_simp

lemma foldl_snoc: "foldl (\<lambda>doc pg. doc @ [pg]) acc xs = acc @ xs"
  by (induction xs arbitrary: acc) simp_all

lemma copyPages_all: "copyPages doc (getPageIndices doc) = doc"
  by (simp add: copyPages_def getPageIndices_def map_nth)

lemma copyPages_cover: "hd (copyPages [cover] [0]) = cover"
  by (simp add: copyPages_def)

lemma those_Some_iff: "those xs = Some ys \<longleftrightarrow> xs = map Some ys"
  by (induction xs arbitrary: ys) (auto split: option.splits)

lemma those_all: "list_all (\<lambda>d. d \<noteq> None) xs \<Longrightarrow> those xs = Some (map the xs)"
  by (induction xs) auto

lemma createCoverPage_drawable:
  "drawable lib a \<Longrightarrow>
   createCoverPage lib a w h
     = Some [\<lparr>width = w, height = h, content = Drawn (map the (coverDrawings lib a))\<rparr>]"
  by (simp add: createCoverPage_def drawable_def those_all)

lemma createCoverPage_SomeD:
  "createCoverPage lib a w h = Some doc \<Longrightarrow>
   \<exists>ds. those (coverDrawings lib a) = Some ds
        \<and> doc = [\<lparr>width = w, height = h, content = Drawn ds\<rparr>]"
  by (auto simp: createCoverPage_def)

lemma renderMergedPdf_SomeD:
  assumes "renderMergedPdf lib buf a = Some merged"
  shows "\<exists>original ds. load lib buf = Some original \<and> original \<noteq> []
      \<and> those (coverDrawings lib a) = Some ds
      \<and> merged = \<lparr>width = width (hd original), height = height (hd original),
                   content = Drawn ds\<rparr> # original"
  using assms
  by (auto simp: renderMergedPdf_def Let_def copyPages_all foldl_snoc copyPages_cover
      split: option.splits list.splits dest!: createCoverPage_SomeD)

lemma renderMergedPdf_drawable:
  assumes "load lib buf = Some original" "original \<noteq> []" "drawable lib a"
  shows "renderMergedPdf lib buf a
    = Some (\<lparr>width = width (hd original), height = height (hd original),
             content = Drawn (map the (coverDrawings lib a))\<rparr> # original)"
  using assms
  by (cases original)
     (simp_all add: renderMergedPdf_def Let_def createCoverPage_drawable copyPages_all foldl_snoc
        copyPages_cover)

lemma sample_drawable: "drawable sampleLib sampleAnalysis"
proof -
  have "coverDrawings sampleLib sampleAnalysis
      = map Some (map the (coverDrawings sampleLib sampleAnalysis))"
    using sample_drawings by (simp add: those_Some_iff)
  then have "list_all (\<lambda>d. d \<noteq> None) (coverDrawings sampleLib sampleAnalysis)"
    by (metis (mono_tags, lifting) Ball_set imageE list.set_map option.distinct(1))
  then show ?thesis by (simp add: drawable_def)
qed

lemma sample_merged:
  "renderMergedPdf sampleLib sampleDoc sampleAnalysis = Some (sampleCover # sampleDoc)"
proof -
  have "createCoverPage sampleLib sampleAnalysis 612 792 = Some [sampleCover]"
    by (simp add: createCoverPage_def sample_drawings sampleCover_def)
  then show ?thesis
    by (simp add: renderMergedPdf_def sampleLib_def sampleDoc_def Let_def copyPages_all
        foldl_snoc copyPages_cover)
qed

lemma handler_valid:
  assumes "cardsProp a = Some cs" "length cs = 3" "auraProp a = Some au" "au \<noteq> []"
  shows "handler lib ''POST'' (Some buf) (Parsed a)
    = (case renderMergedPdf lib buf a of
         None \<Rightarrow> Json 500 ''Failed to render PDF'' | Some doc \<Rightarrow> Sent doc)"
  using assms by (simp add: handler_def missing_def)

lemma sample_handler:
  "handler sampleLib ''POST'' (Some sampleDoc) (Parsed sampleAnalysis) = Sent (sampleCover # sampleDoc)"
  using handler_valid [of sampleAnalysis "[sampleCard, sampleCard, sampleCard]" "''Focus Goblin''"
      sampleLib sampleDoc]
  by (simp add: sample_merged) (simp add: sampleAnalysis_def)

text \<open>
  Claim C2, as amended. The render handlers reject the analysis before any rendering, with
  status 400 and whatever the library does, exactly in these cases: the cards are missing
  or are not three (message \<open>missing cards\<close>), or else the aura is missing or empty (message
  \<open>missing aura\<close>). Otherwise the analysis is rendered, and the response is the merged
  document, or status 500 if rendering throws. The positions of the cards and the
  certification are not inspected.
\<close>

theorem render_validation:
  "((cardsProp a = None \<or> (\<exists>cs. cardsProp a = Some cs \<and> length cs \<noteq> 3))
      \<longrightarrow> handler lib ''POST'' (Some buf) (Parsed a) = Json 400 ''Invalid analysis: missing cards''
        \<and> renderRoute render (Some buf') (Parsed a) = Json 400 ''Invalid analysis: missing cards'')
   \<and> ((\<exists>cs. cardsProp a = Some cs \<and> length cs = 3) \<and> (auraProp a = None \<or> auraProp a = Some [])
      \<longrightarrow> handler lib ''POST'' (Some buf) (Parsed a) = Json 400 ''Invalid analysis: missing aura''
        \<and> renderRoute render (Some buf') (Parsed a) = Json 400 ''Invalid analysis: missing aura'')
   \<and> ((\<exists>cs. cardsProp a = Some cs \<and> length cs = 3) \<and> (\<exists>au. auraProp a = Some au \<and> au \<noteq> [])
      \<longrightarrow> handler lib ''POST'' (Some buf) (Parsed a)
            = (case renderMergedPdf lib buf a of
                 None \<Rightarrow> Json 500 ''Failed to render PDF'' | Some doc \<Rightarrow> Sent doc)
        \<and> renderRoute render (Some buf') (Parsed a)
            = (case render buf' a of
                 None \<Rightarrow> Json 500 ''Failed to render PDF'' | Some out \<Rightarrow> Sent out))"
  by (auto simp: handler_def renderRoute_def missing_def)

theorem render_validation_witness:
  "handler sampleLib ''POST'' (Some sampleDoc)
       (Parsed (sampleAnalysis\<lparr>cardsProp := Some [sampleCard, sampleCard]\<rparr>))
     = Json 400 ''Invalid analysis: missing cards''
   \<and> handler sampleLib ''POST'' (Some sampleDoc) (Parsed (sampleAnalysis\<lparr>auraProp := Some []\<rparr>))
     = Json 400 ''Invalid analysis: missing aura''
   \<and> handler sampleLib ''POST'' (Some sampleDoc) (Parsed sampleAnalysis)
     = Sent (sampleCover # sampleDoc)"
proof -
  have "handler sampleLib ''POST'' (Some sampleDoc)
       (Parsed (sampleAnalysis\<lparr>cardsProp := Some [sampleCard, sampleCard]\<rparr>))
     = Json 400 ''Invalid analysis: missing cards''"
    using render_validation [of "sampleAnalysis\<lparr>cardsProp := Some [sampleCard, sampleCard]\<rparr>"
        sampleLib sampleDoc "renderMergedPdf sampleLib" sampleDoc]
    by simp
  moreover have "handler sampleLib ''POST'' (Some sampleDoc)
       (Parsed (sampleAnalysis\<lparr>auraProp := Some []\<rparr>))
     = Json 400 ''Invalid analysis: missing aura''"
    using render_validation [of "sampleAnalysis\<lparr>auraProp := Some []\<rparr>" sampleLib sampleDoc
        "renderMergedPdf sampleLib" sampleDoc]
    by (simp add: sampleAnalysis_def)
  moreover have "handler sampleLib ''POST'' (Some sampleDoc) (Parsed sampleAnalysis)
     = Sent (sampleCover # sampleDoc)"
    using render_validation [of sampleAnalysis sampleLib sampleDoc "renderMergedPdf sampleLib"
        sampleDoc]
    by (simp add: sample_merged) (simp add: sampleAnalysis_def)
  ultimately show ?thesis by simp
qed

text \<open>
  The sample analysis has three cards with the position \<open>past\<close> and no certification, and
  the handler answers with the merged document.
\<close>

theorem render_validation_counterexample:
  "cardsProp sampleAnalysis = Some [sampleCard, sampleCard, sampleCard]
   \<and> position sampleCard = ''past''
   \<and> certificationProp sampleAnalysis = None
   \<and> handler sampleLib ''POST'' (Some sampleDoc) (Parsed sampleAnalysis)
       = Sent (sampleCover # sampleDoc)"
  using sample_handler by (simp add: sampleAnalysis_def sampleCard_def)

text \<open>
  Claim C3. Let the uploaded document load with \<open>N \<ge> 1\<close> pages. Every merged document
  that \<open>renderMergedPdf\<close> returns has \<open>N + 1\<close> pages: page 0 is the composed cover page, of
  the size of the first original page, and page \<open>i + 1\<close> is the original page \<open>i\<close>, unchanged.
  A merged document is returned whenever the cover page is drawable, and then the handler
  sends it for every analysis with three cards and an aura.
\<close>

theorem merged_document_pages:
  assumes "load lib buf = Some original" and "original \<noteq> []"
  shows "(\<forall>merged. renderMergedPdf lib buf a = Some merged \<longrightarrow>
            length merged = length original + 1
            \<and> (\<exists>ds. those (coverDrawings lib a) = Some ds
                  \<and> merged ! 0 = \<lparr>width = width (original ! 0), height = height (original ! 0),
                                  content = Drawn ds\<rparr>)
            \<and> (\<forall>i<length original. merged ! (i + 1) = original ! i))
       \<and> (drawable lib a \<longrightarrow> (\<exists>merged. renderMergedPdf lib buf a = Some merged))
       \<and> (drawable lib a \<and> (\<exists>cs. cardsProp a = Some cs \<and> length cs = 3)
             \<and> (\<exists>au. auraProp a = Some au \<and> au \<noteq> [])
            \<longrightarrow> (\<exists>merged. handler lib ''POST'' (Some buf) (Parsed a) = Sent merged
                   \<and> renderMergedPdf lib buf a = Some merged))"
proof -
  have shape: "\<forall>merged. renderMergedPdf lib buf a = Some merged \<longrightarrow>
            length merged = length original + 1
            \<and> (\<exists>ds. those (coverDrawings lib a) = Some ds
                  \<and> merged ! 0 = \<lparr>width = width (original ! 0), height = height (original ! 0),
                                  content = Drawn ds\<rparr>)
            \<and> (\<forall>i<length original. merged ! (i + 1) = original ! i)"
  proof (intro allI impI)
    fix merged
    assume m: "renderMergedPdf lib buf a = Some merged"
    from renderMergedPdf_SomeD [OF m] assms(1)
    obtain ds where ds: "those (coverDrawings lib a) = Some ds"
      and merged: "merged = \<lparr>width = width (hd original), height = height (hd original),
                     content = Drawn ds\<rparr> # original"
      by auto
    have "length merged = length original + 1"
      by (simp add: merged)
    moreover have "\<exists>ds. those (coverDrawings lib a) = Some ds
            \<and> merged ! 0 = \<lparr>width = width (original ! 0), height = height (original ! 0),
                            content = Drawn ds\<rparr>"
      using ds assms(2) by (simp add: merged hd_conv_nth)
    moreover have "\<forall>i<length original. merged ! (i + 1) = original ! i"
      by (simp add: merged)
    ultimately show "length merged = length original + 1
            \<and> (\<exists>ds. those (coverDrawings lib a) = Some ds
                  \<and> merged ! 0 = \<lparr>width = width (original ! 0), height = height (original ! 0),
                                  content = Drawn ds\<rparr>)
            \<and> (\<forall>i<length original. merged ! (i + 1) = original ! i)"
      by blast
  qed
  have returns: "drawable lib a \<longrightarrow> (\<exists>merged. renderMergedPdf lib buf a = Some merged)"
    using assms by (simp add: renderMergedPdf_drawable)
  have sent: "drawable lib a \<and> (\<exists>cs. cardsProp a = Some cs \<and> length cs = 3)
             \<and> (\<exists>au. auraProp a = Some au \<and> au \<noteq> [])
            \<longrightarrow> (\<exists>merged. handler lib ''POST'' (Some buf) (Parsed a) = Sent merged
                   \<and> renderMergedPdf lib buf a = Some merged)"
  proof
    assume v: "drawable lib a \<and> (\<exists>cs. cardsProp a = Some cs \<and> length cs = 3)
               \<and> (\<exists>au. auraProp a = Some au \<and> au \<noteq> [])"
    then obtain cs au where "cardsProp a = Some cs" "length cs = 3" "auraProp a = Some au"
      "au \<noteq> []"
      by blast
    then have "handler lib ''POST'' (Some buf) (Parsed a)
      = (case renderMergedPdf lib buf a of
           None \<Rightarrow> Json 500 ''Failed to render PDF'' | Some doc \<Rightarrow> Sent doc)"
      by (rule handler_valid)
    with v assms show "\<exists>merged. handler lib ''POST'' (Some buf) (Parsed a) = Sent merged
                     \<and> renderMergedPdf lib buf a = Some merged"
      by (simp add: renderMergedPdf_drawable)
  qed
  from shape returns sent show ?thesis
    by (intro conjI)
qed

theorem merged_document_pages_witness:
  "load sampleLib sampleDoc = Some sampleDoc \<and> length sampleDoc = 2
   \<and> drawable sampleLib sampleAnalysis
   \<and> renderMergedPdf sampleLib sampleDoc sampleAnalysis = Some (sampleCover # sampleDoc)
   \<and> length (sampleCover # sampleDoc) = 3
   \<and> (sampleCover # sampleDoc) ! 1 = sampleDoc ! 0 \<and> (sampleCover # sampleDoc) ! 2 = sampleDoc ! 1"
proof -
  have l: "load sampleLib sampleDoc = Some sampleDoc" and n: "sampleDoc \<noteq> []"
    by (simp_all add: sampleLib_def sampleDoc_def)
  from merged_document_pages [OF l n, of sampleAnalysis] sample_merged
  have "length (sampleCover # sampleDoc) = length sampleDoc + 1"
    "\<forall>i<length sampleDoc. (sampleCover # sampleDoc) ! (i + 1) = sampleDoc ! i"
    by blast+
  moreover have "length sampleDoc = 2"
    by (simp add: sampleDoc_def)
  ultimately show ?thesis
    using l sample_drawable sample_merged by simp
qed

lemma certText_drawn:
  assumes "drawable lib a"
  shows "Text HelveticaBold 12 (certText a) \<in> set (map the (coverDrawings lib a))"
proof -
  have mem: "centred lib HelveticaBold 12 (certText a) \<in> set (coverDrawings lib a)"
    by (simp add: coverDrawings_def)
  with assms have "centred lib HelveticaBold 12 (certText a) \<noteq> None"
    by (auto simp: drawable_def list_all_iff)
  then have "centred lib HelveticaBold 12 (certText a) = Some (Text HelveticaBold 12 (certText a))"
    by (simp add: centred_def split: if_splits)
  with mem show ?thesis
    by (metis image_eqI list.set_map option.sel)
qed

text \<open>
  Claim C10. An analysis whose certification is missing or empty, with three cards and an
  aura, passes the validation; when the upload loads with at least one page and the cover
  page is drawable, the handler sends the merged document, and its cover page carries the
  stamp text \<open>Certified Chaotic Neutral\<close>.
\<close>

theorem missing_certification_falls_back:
  assumes "certificationProp a = None \<or> certificationProp a = Some []"
    and "cardsProp a = Some cs" and "length cs = 3"
    and "auraProp a = Some au" and "au \<noteq> []"
    and "load lib buf = Some original" and "original \<noteq> []"
    and "drawable lib a"
  shows "\<exists>ds. handler lib ''POST'' (Some buf) (Parsed a)
             = Sent (\<lparr>width = width (hd original), height = height (hd original),
                      content = Drawn ds\<rparr> # original)
           \<and> Text HelveticaBold 12 ''Certified Chaotic Neutral'' \<in> set ds
           \<and> certText a = ''Certified Chaotic Neutral''"
proof -
  have c: "certText a = ''Certified Chaotic Neutral''"
    using assms(1) by (auto simp: certText_def orDefault_def orElse_def)
  have "handler lib ''POST'' (Some buf) (Parsed a)
      = (case renderMergedPdf lib buf a of
           None \<Rightarrow> Json 500 ''Failed to render PDF'' | Some doc \<Rightarrow> Sent doc)"
    using assms(2-5) by (rule handler_valid)
  then have "handler lib ''POST'' (Some buf) (Parsed a)
      = Sent (\<lparr>width = width (hd original), height = height (hd original),
               content = Drawn (map the (coverDrawings lib a))\<rparr> # original)"
    using assms(6-8) by (simp add: renderMergedPdf_drawable)
  moreover have "Text HelveticaBold 12 ''Certified Chaotic Neutral''
      \<in> set (map the (coverDrawings lib a))"
    using certText_drawn [OF assms(8)] c by simp
  ultimately show ?thesis
    using c by blast
qed

lemma sample_empty_certification:
  "coverDrawings sampleLib (sampleAnalysis\<lparr>certificationProp := Some []\<rparr>)
     = coverDrawings sampleLib sampleAnalysis"
  by (simp add: coverDrawings_def certText_def auraText_def orDefault_def orElse_def
      sampleAnalysis_def)

theorem missing_certification_falls_back_witness:
  "certificationProp sampleAnalysis = None
   \<and> handler sampleLib ''POST'' (Some sampleDoc) (Parsed sampleAnalysis)
       = Sent (sampleCover # sampleDoc)
   \<and> handler sampleLib ''POST'' (Some sampleDoc)
         (Parsed (sampleAnalysis\<lparr>certificationProp := Some []\<rparr>))
       = Sent (sampleCover # sampleDoc)
   \<and> Text HelveticaBold 12 ''Certified Chaotic Neutral''
       \<in> (case content sampleCover of Drawn ds \<Rightarrow> set ds | Original c \<Rightarrow> {})"
proof -
  let ?a = "sampleAnalysis\<lparr>certificationProp := Some []\<rparr>"
  have l: "load sampleLib sampleDoc = Some sampleDoc" and n: "sampleDoc \<noteq> []"
    by (simp_all add: sampleLib_def sampleDoc_def)
  have d: "drawable sampleLib ?a"
    using sample_drawable by (simp add: drawable_def sample_empty_certification)
  have c: "cardsProp ?a = Some [sampleCard, sampleCard, sampleCard]"
    and au: "auraProp ?a = Some ''Focus Goblin''"
    and ce: "certificationProp ?a = None \<or> certificationProp ?a = Some []"
    by (simp_all add: sampleAnalysis_def)
  have len: "length [sampleCard, sampleCard, sampleCard] = 3" and ne: "''Focus Goblin'' \<noteq> []"
    by simp_all
  from missing_certification_falls_back [OF ce c len au ne l n d]
  obtain ds where h: "handler sampleLib ''POST'' (Some sampleDoc) (Parsed ?a)
             = Sent (\<lparr>width = width (hd sampleDoc), height = height (hd sampleDoc),
                      content = Drawn ds\<rparr> # sampleDoc)"
    and t: "Text HelveticaBold 12 ''Certified Chaotic Neutral'' \<in> set ds"
    by blast
  have m: "renderMergedPdf sampleLib sampleDoc ?a = Some (sampleCover # sampleDoc)"
    using sample_merged renderMergedPdf_drawable [OF l n d]
      renderMergedPdf_drawable [OF l n sample_drawable]
    by (simp add: sample_empty_certification)
  have e: "handler sampleLib ''POST'' (Some sampleDoc) (Parsed ?a) = Sent (sampleCover # sampleDoc)"
    using handler_valid [OF c len au ne, of sampleLib sampleDoc] by (simp add: m)
  from h e have "content sampleCover = Drawn ds"
    by (simp add: sampleDoc_def sampleCover_def)
  with t have "Text HelveticaBold 12 ''Certified Chaotic Neutral''
       \<in> (case content sampleCover of Drawn ds \<Rightarrow> set ds | Original c \<Rightarrow> {})"
    by simp
  moreover have "certificationProp sampleAnalysis = None"
    by (simp add: sampleAnalysis_def)
  ultimately show ?thesis
    using e sample_handler by simp
qed

end
